theory Spec2Isabelle
  imports Main "HOL-Library.AList" "HOL-Library.Sublist"
begin

section \<open>Values and errors\<close>

text \<open>
  The body of a failed transport request (\<^verbatim>\<open>MatrixRequestError\<close>): \<open>content\<close> is
  \<^verbatim>\<open>err.content\<close>, and \<open>json_errcode\<close> is the value of
  \<^verbatim>\<open>json.loads(err.content)["errcode"]\<close> when that expression evaluates without an
  exception (\<open>None\<close> when it raises).
\<close>

datatype request_error = RequestError (content: string) (json_errcode: "string option")

text \<open>
  The exceptions the modelled code raises or lets through. \<open>OtherException\<close> is an
  exception of a collaborator that none of the above names, such as a failed connection.
\<close>

datatype error =
    AttributeError
  | TypeError
  | KeyError
  | ValueError string
  | YAMLError
  | MatrixRequestError request_error
  | IntentError string request_error
  | OtherException string

text \<open>
  A loaded YAML (or JSON) value. Mappings are \<^verbatim>\<open>CommentedMap\<close>s: insertion-ordered,
  here association lists with string keys. Floats, dates and mapping keys that are not
  strings are outside the embedding, and so are the comment attributes
  (\<^verbatim>\<open>data.ca\<close>) that the round-trip loader attaches to a mapping.
\<close>

datatype val =
    VNull
  | VBool bool
  | VInt int
  | VStr string
  | VList "val list"
  | VMap "(string \<times> val) list"

text \<open>Python truthiness, as used by \<^verbatim>\<open>x or y\<close> and \<^verbatim>\<open>if x\<close>.\<close>

fun truthy :: "val \<Rightarrow> bool" where
  "truthy VNull = False"
| "truthy (VBool b) = b"
| "truthy (VInt i) = (i \<noteq> 0)"
| "truthy (VStr s) = (s \<noteq> [])"
| "truthy (VList xs) = (xs \<noteq> [])"
| "truthy (VMap m) = (m \<noteq> [])"

definition py_or :: "val \<Rightarrow> val \<Rightarrow> val" where
  "py_or x y = (if truthy x then x else y)"

definition and_then :: "error + 'a \<Rightarrow> ('a \<Rightarrow> error + 'b) \<Rightarrow> error + 'b" where
  "and_then m f = (case m of Inl e \<Rightarrow> Inl e | Inr x \<Rightarrow> f x)"

text \<open>\<^verbatim>\<open>key in data\<close> for a string key.\<close>

fun py_in :: "string \<Rightarrow> val \<Rightarrow> error + bool" where
  "py_in k (VMap m) = Inr (k \<in> set (map fst m))"
| "py_in k (VStr s) = Inr (sublist k s)"
| "py_in k (VList xs) = Inr (VStr k \<in> set xs)"
| "py_in k v = Inl TypeError"

text \<open>\<^verbatim>\<open>data.get(key, default)\<close>: only a mapping has the method.\<close>

fun dict_get :: "val \<Rightarrow> string \<Rightarrow> val \<Rightarrow> error + val" where
  "dict_get (VMap m) k d = Inr (case map_of m k of Some v \<Rightarrow> v | None \<Rightarrow> d)"
| "dict_get v k d = Inl AttributeError"

text \<open>\<^verbatim>\<open>data[key]\<close> for a string key.\<close>

fun py_index :: "val \<Rightarrow> string \<Rightarrow> error + val" where
  "py_index (VMap m) k = (case map_of m k of Some v \<Rightarrow> Inr v | None \<Rightarrow> Inl KeyError)"
| "py_index v k = Inl TypeError"

text \<open>\<^verbatim>\<open>data[key] = value\<close> for a string key.\<close>

fun py_setitem :: "val \<Rightarrow> string \<Rightarrow> val \<Rightarrow> error + val" where
  "py_setitem (VMap m) k v = Inr (VMap (AList.update k v m))"
| "py_setitem d k v = Inl TypeError"

text \<open>
  \<^verbatim>\<open>try: del data[key]; del data.ca.items[key]  except KeyError: pass\<close>.
  On a mapping the key is removed when present and the \<^verbatim>\<open>KeyError\<close> is swallowed
  otherwise.
\<close>

fun py_delitem :: "val \<Rightarrow> string \<Rightarrow> error + val" where
  "py_delitem (VMap m) k = Inr (VMap (AList.delete k m))"
| "py_delitem d k = Inl TypeError"

section \<open>DictWithRecursion\<close>

definition has_dot :: "string \<Rightarrow> bool" where
  "has_dot key = (CHR ''.'' \<in> set key)"

text \<open>The two parts of \<^verbatim>\<open>key.split('.', 1)\<close> for a key that contains a dot.\<close>

definition key_head :: "string \<Rightarrow> string" where
  "key_head key = takeWhile (\<lambda>c. c \<noteq> CHR ''.'') key"

definition key_rest :: "string \<Rightarrow> string" where
  "key_rest key = drop 1 (dropWhile (\<lambda>c. c \<noteq> CHR ''.'') key)"

lemma key_rest_shorter: "has_dot key \<Longrightarrow> length (key_rest key) < length key"
proof -
  assume "has_dot key"
  then have "dropWhile (\<lambda>c. c \<noteq> CHR ''.'') key \<noteq> []"
    by (auto simp: has_dot_def)
  then have "length (drop 1 (dropWhile (\<lambda>c. c \<noteq> CHR ''.'') key))
      < length (dropWhile (\<lambda>c. c \<noteq> CHR ''.'') key)"
    by (cases "dropWhile (\<lambda>c. c \<noteq> CHR ''.'') key") auto
  also have "\<dots> \<le> length key"
    by (rule length_dropWhile_le)
  finally show ?thesis by (simp add: key_rest_def)
qed

function recursive_get :: "val \<Rightarrow> string \<Rightarrow> val \<Rightarrow> error + val" where
  "recursive_get data key default_value =
     (if has_dot key then
        (case dict_get data (key_head key) (VMap []) of
           Inl e \<Rightarrow> Inl e
         | Inr next_data \<Rightarrow> recursive_get next_data (key_rest key) default_value)
      else dict_get data key default_value)"
  by pat_completeness auto
termination
  by (relation "measure (\<lambda>(data, key, d). length key)") (auto simp: key_rest_shorter)

definition get :: "val \<Rightarrow> string \<Rightarrow> val \<Rightarrow> bool \<Rightarrow> error + val" where
  "get data key default_value allow_recursion =
     (if allow_recursion \<and> has_dot key then recursive_get data key default_value
      else dict_get data key default_value)"

definition getitem :: "val \<Rightarrow> string \<Rightarrow> error + val" where
  "getitem data key = get data key VNull True"

definition contains :: "val \<Rightarrow> string \<Rightarrow> error + bool" where
  "contains data key = and_then (getitem data key) (\<lambda>v. Inr (v \<noteq> VNull))"

text \<open>
  \<^verbatim>\<open>_recursive_set\<close> mutates the mapping it is given; the model returns the mapping
  after the call. The child \<^verbatim>\<open>next_data\<close> is the object stored under \<^verbatim>\<open>key\<close>,
  so what the recursive call did to it is stored back under that key.
\<close>

function recursive_set :: "val \<Rightarrow> string \<Rightarrow> val \<Rightarrow> error + val" where
  "recursive_set data key v =
     (if has_dot key then
        (case py_in (key_head key) data of
           Inl e \<Rightarrow> Inl e
         | Inr present \<Rightarrow>
            (case (if present then Inr data else py_setitem data (key_head key) (VMap [])) of
               Inl e \<Rightarrow> Inl e
             | Inr data1 \<Rightarrow>
                (case dict_get data1 (key_head key) (VMap []) of
                   Inl e \<Rightarrow> Inl e
                 | Inr next_data \<Rightarrow>
                    (case recursive_set next_data (key_rest key) v of
                       Inl e \<Rightarrow> Inl e
                     | Inr next_data' \<Rightarrow> py_setitem data1 (key_head key) next_data'))))
      else py_setitem data key v)"
  by pat_completeness auto
termination
  by (relation "measure (\<lambda>(data, key, v). length key)") (auto simp: key_rest_shorter)

definition set_key :: "val \<Rightarrow> string \<Rightarrow> val \<Rightarrow> bool \<Rightarrow> error + val" where
  "set_key data key v allow_recursion =
     (if allow_recursion \<and> has_dot key then recursive_set data key v
      else py_setitem data key v)"

definition setitem :: "val \<Rightarrow> string \<Rightarrow> val \<Rightarrow> error + val" where
  "setitem data key v = set_key data key v True"

function recursive_del :: "val \<Rightarrow> string \<Rightarrow> error + val" where
  "recursive_del data key =
     (if has_dot key then
        (case py_in (key_head key) data of
           Inl e \<Rightarrow> Inl e
         | Inr present \<Rightarrow>
            if \<not> present then Inr data
            else
              (case py_index data (key_head key) of
                 Inl e \<Rightarrow> Inl e
               | Inr next_data \<Rightarrow>
                  (case recursive_del next_data (key_rest key) of
                     Inl e \<Rightarrow> Inl e
                   | Inr next_data' \<Rightarrow> py_setitem data (key_head key) next_data')))
      else py_delitem data key)"
  by pat_completeness auto
termination
  by (relation "measure (\<lambda>(data, key). length key)") (auto simp: key_rest_shorter)

definition delete :: "val \<Rightarrow> string \<Rightarrow> bool \<Rightarrow> error + val" where
  "delete data key allow_recursion =
     (if allow_recursion \<and> has_dot key then recursive_del data key
      else py_delitem data key)"

definition delitem :: "val \<Rightarrow> string \<Rightarrow> error + val" where
  "delitem data key = delete data key True"

text \<open>
  \<open>path_clear data key\<close>: on the way that a dotted \<open>key\<close> takes through \<open>data\<close>,
  every node that is present (the document itself included) is a mapping. The walk ends
  at the first absent segment: below it nothing is present.
\<close>

function path_clear :: "val \<Rightarrow> string \<Rightarrow> bool" where
  "path_clear data key =
     (case data of
        VMap m \<Rightarrow>
          (if has_dot key then
             (case map_of m (key_head key) of
                None \<Rightarrow> True
              | Some child \<Rightarrow> path_clear child (key_rest key))
           else True)
      | _ \<Rightarrow> False)"
  by pat_completeness auto
termination
  by (relation "measure (\<lambda>(data, key). length key)") (auto simp: key_rest_shorter)

text \<open>
  The segments of a dotted key, and whether two lists of segments part ways: at some
  position both have a segment and the two differ.
\<close>

function segments :: "string \<Rightarrow> string list" where
  "segments key = (if has_dot key then key_head key # segments (key_rest key) else [key])"
  by pat_completeness auto
termination
  by (relation "measure length") (auto simp: key_rest_shorter)

fun apart :: "string list \<Rightarrow> string list \<Rightarrow> bool" where
  "apart (a # p) (b # q) = (a \<noteq> b \<or> apart p q)"
| "apart p q = False"

section \<open>Config\<close>

record config =
  cfg_data :: val
  cfg_path :: string
  cfg_registration_path :: string
  cfg_base_path :: string
  cfg_registration :: val

text \<open>
  What opening and parsing the file at \<^verbatim>\<open>base_path\<close> does: \<^verbatim>\<open>open\<close> raises
  \<^verbatim>\<open>OSError\<close>, the parser raises, or the parser returns a value.
\<close>

datatype base_file = Unavailable | Malformed | Loaded val

fun load_base :: "base_file \<Rightarrow> error + val option" where
  "load_base Unavailable = Inr None"
| "load_base Malformed = Inl YAMLError"
| "load_base (Loaded v) = Inr (Some (py_or v (VMap [])))"

text \<open>\<^verbatim>\<open>save\<close>: the files written, in order, as pairs of path and dumped value.\<close>

definition save :: "config \<Rightarrow> (string \<times> val) list" where
  "save cfg =
     (cfg_path cfg, cfg_data cfg) #
     (if truthy (cfg_registration cfg) \<and> cfg_registration_path cfg \<noteq> []
      then [(cfg_registration_path cfg, cfg_registration cfg)] else [])"

definition or_path :: "string option \<Rightarrow> string \<Rightarrow> string" where
  "or_path to_path from_path =
     (case to_path of None \<Rightarrow> from_path | Some t \<Rightarrow> if t = [] then from_path else t)"

definition copy :: "val \<Rightarrow> val \<Rightarrow> string \<Rightarrow> string option \<Rightarrow> error + val" where
  "copy self base from_path to_path =
     and_then (contains self from_path) (\<lambda>present.
       if present then
         and_then (getitem self from_path) (\<lambda>v. setitem base (or_path to_path from_path) v)
       else Inr base)"

text \<open>Consecutive calls \<^verbatim>\<open>copy(k)\<close>, in the order of the list.\<close>

fun copies :: "val \<Rightarrow> string list \<Rightarrow> val \<Rightarrow> error + val" where
  "copies self [] base = Inr base"
| "copies self (k # ks) base =
     (case copy self base k None of Inl e \<Rightarrow> Inl e | Inr base' \<Rightarrow> copies self ks base')"

text \<open>\<^verbatim>\<open>value.items()\<close>: only a mapping has the method.\<close>

fun py_items :: "val \<Rightarrow> error + (string \<times> val) list" where
  "py_items (VMap m) = Inr m"
| "py_items v = Inl AttributeError"

text \<open>The loop \<^verbatim>\<open>for key, value in ...: base[to_path][key] = value\<close>.\<close>

fun copy_items :: "val \<Rightarrow> string \<Rightarrow> (string \<times> val) list \<Rightarrow> error + val" where
  "copy_items base to_path [] = Inr base"
| "copy_items base to_path ((k, v) # kvs) =
     (case getitem base to_path of
        Inl e \<Rightarrow> Inl e
      | Inr target \<Rightarrow>
         (case py_setitem target k v of
            Inl e \<Rightarrow> Inl e
          | Inr target' \<Rightarrow>
             (case setitem base to_path target' of
                Inl e \<Rightarrow> Inl e
              | Inr base' \<Rightarrow> copy_items base' to_path kvs)))"

definition copy_dict :: "val \<Rightarrow> val \<Rightarrow> string \<Rightarrow> string option \<Rightarrow> bool \<Rightarrow> error + val" where
  "copy_dict self base from_path to_path override_existing_map =
     and_then (contains self from_path) (\<lambda>present.
       if \<not> present then Inr base
       else
         and_then (if override_existing_map then Inr True
                   else and_then (contains base (or_path to_path from_path)) (\<lambda>c. Inr (\<not> c)))
           (\<lambda>fresh.
         and_then (if fresh then setitem base (or_path to_path from_path) (VMap []) else Inr base)
           (\<lambda>base1.
         and_then (getitem self from_path) (\<lambda>src.
         and_then (py_items src) (\<lambda>kvs.
           copy_items base1 (or_path to_path from_path) kvs)))))"

text \<open>
  \<^verbatim>\<open>update\<close>, lines 144 to 208: the plain copies, the appservice address, the
  provisioning secret and the message formats. The state is the pair of the working
  document (\<^verbatim>\<open>self._data\<close>, which \<^verbatim>\<open>del self[...]\<close> changes) and the base
  document. \<open>render\<close> is what an f-string makes of a value (\<^verbatim>\<open>format(v, "")\<close>);
  \<open>new_token\<close> is the result of \<^verbatim>\<open>self._new_token()\<close>, which is called at most once.
\<close>

definition update_general :: "(val \<Rightarrow> string) \<Rightarrow> string \<Rightarrow> val \<Rightarrow> val \<Rightarrow> error + val \<times> val" where
  "update_general render new_token self base0 =
     and_then (copies self
        [''homeserver.address'', ''homeserver.verify_ssl'', ''homeserver.domain''] base0) (\<lambda>base.
     and_then (contains self ''appservice.protocol'') (\<lambda>has_protocol.
     and_then (if has_protocol
               then and_then (contains self ''appservice.address'') (\<lambda>c. Inr (\<not> c))
               else Inr False) (\<lambda>legacy_address.
     and_then (if legacy_address then
                 and_then (getitem self ''appservice.protocol'') (\<lambda>protocol.
                 and_then (getitem self ''appservice.hostname'') (\<lambda>hostname.
                 and_then (getitem self ''appservice.port'') (\<lambda>port.
                   setitem base ''appservice.address''
                     (VStr (render protocol @ ''://'' @ render hostname @ '':'' @ render port)))))
               else copy self base ''appservice.address'' None) (\<lambda>base.
     and_then (copies self
        [''appservice.hostname'', ''appservice.port'',
         ''appservice.database'',
         ''appservice.public.enabled'', ''appservice.public.prefix'',
         ''appservice.public.external'',
         ''appservice.provisioning.enabled'', ''appservice.provisioning.prefix'',
         ''appservice.provisioning.shared_secret''] base) (\<lambda>base.
     and_then (getitem base ''appservice.provisioning.shared_secret'') (\<lambda>secret.
     and_then (if secret = VStr ''generate''
               then setitem base ''appservice.provisioning.shared_secret'' (VStr new_token)
               else Inr base) (\<lambda>base.
     and_then (copies self
        [''appservice.id'', ''appservice.bot_username'', ''appservice.bot_displayname'',
         ''appservice.bot_avatar'',
         ''appservice.as_token'', ''appservice.hs_token'',
         ''bridge.username_template'', ''bridge.alias_template'',
         ''bridge.displayname_template'',
         ''bridge.displayname_preference'',
         ''bridge.edits_as_replies'', ''bridge.highlight_edits'', ''bridge.bridge_notices'',
         ''bridge.bot_messages_as_notices'', ''bridge.max_initial_member_sync'',
         ''bridge.sync_channel_members'', ''bridge.max_telegram_delete'',
         ''bridge.allow_matrix_login'', ''bridge.inline_images'',
         ''bridge.plaintext_highlights'', ''bridge.public_portals'',
         ''bridge.native_stickers'', ''bridge.catch_up'',
         ''bridge.sync_with_custom_puppets''] base) (\<lambda>base.
     and_then (contains self ''bridge.message_formats.m_text'') (\<lambda>legacy_formats.
     and_then (if legacy_formats then delitem self ''bridge.message_formats''
               else Inr self) (\<lambda>self'.
     and_then (copy_dict self' base ''bridge.message_formats'' None False) (\<lambda>base.
     and_then (copies self'
        [''bridge.state_event_formats.join'', ''bridge.state_event_formats.leave'',
         ''bridge.state_event_formats.name_change'',
         ''bridge.filter.mode'', ''bridge.filter.list'',
         ''bridge.command_prefix''] base) (\<lambda>base.
       Inr (self', base)))))))))))))"

text \<open>\<^verbatim>\<open>for entry in value\<close>: the entries a loop over the value visits.\<close>

fun py_iter :: "val \<Rightarrow> error + val list" where
  "py_iter (VList xs) = Inr xs"
| "py_iter (VMap m) = Inr (map (\<lambda>kv. VStr (fst kv)) m)"
| "py_iter (VStr s) = Inr (map (\<lambda>c. VStr [c]) s)"
| "py_iter v = Inl TypeError"

text \<open>
  \<^verbatim>\<open>permissions[entry] = level\<close>. An entry that is a list or a mapping is unhashable
  (\<^verbatim>\<open>TypeError\<close>); a scalar entry other than a string would become a key that is not
  a string, which this embedding does not represent: \<open>NonStringKey\<close> marks that border
  and is no exception of the source.
\<close>

datatype assigned = Assigned val | NonStringKey

fun assign_entry :: "val \<Rightarrow> val \<Rightarrow> val \<Rightarrow> error + assigned" where
  "assign_entry permissions (VStr s) level =
     (case py_setitem permissions s level of Inl e \<Rightarrow> Inl e | Inr p \<Rightarrow> Inr (Assigned p))"
| "assign_entry permissions (VList xs) level = Inl TypeError"
| "assign_entry permissions (VMap m) level = Inl TypeError"
| "assign_entry permissions entry level = Inr NonStringKey"

fun assign_all :: "val \<Rightarrow> val list \<Rightarrow> val \<Rightarrow> error + assigned" where
  "assign_all permissions [] level = Inr (Assigned permissions)"
| "assign_all permissions (entry # entries) level =
     (case assign_entry permissions entry level of
        Inl e \<Rightarrow> Inl e
      | Inr NonStringKey \<Rightarrow> Inr NonStringKey
      | Inr (Assigned p) \<Rightarrow> assign_all p entries level)"

text \<open>
  \<^verbatim>\<open>update\<close>, lines 210 to 221. In the migrating branch \<^verbatim>\<open>permissions\<close> is the
  working document's own mapping when that is truthy, so the assignments change the
  working document as well; the model stores the result back there.
\<close>

definition update_permissions :: "val \<Rightarrow> val \<Rightarrow> error + (val \<times> val) option" where
  "update_permissions self base =
     and_then (contains self ''bridge.permissions'') (\<lambda>has_permissions.
     and_then (if \<not> has_permissions then Inr True
               else and_then (contains self ''bridge.whitelist'') (\<lambda>has_whitelist.
                    if has_whitelist then Inr True
                    else contains self ''bridge.admins'')) (\<lambda>migrate_permissions.
     if migrate_permissions then
       and_then (getitem self ''bridge.permissions'') (\<lambda>old.
       and_then (getitem self ''bridge.whitelist'') (\<lambda>whitelist.
       and_then (py_iter (py_or whitelist (VList []))) (\<lambda>entries.
       and_then (assign_all (py_or old (VMap [])) entries (VStr ''full'')) (\<lambda>a1.
         case a1 of
           NonStringKey \<Rightarrow> Inr None
         | Assigned p1 \<Rightarrow>
             and_then (getitem self ''bridge.admins'') (\<lambda>admins.
             and_then (py_iter (py_or admins (VList []))) (\<lambda>entries.
             and_then (assign_all p1 entries (VStr ''admin'')) (\<lambda>a2.
               case a2 of
                 NonStringKey \<Rightarrow> Inr None
               | Assigned permissions \<Rightarrow>
                   and_then (if truthy old then setitem self ''bridge.permissions'' permissions
                             else Inr self) (\<lambda>self'.
                   and_then (setitem base ''bridge.permissions'' permissions) (\<lambda>base'.
                     Inr (Some (self', base')))))))))))
     else
       and_then (copy_dict self base ''bridge.permissions'' None True) (\<lambda>base'.
         Inr (Some (self, base')))))"

text \<open>\<^verbatim>\<open>update\<close>, lines 223 to 247: relaybot, telegram and logging settings.\<close>

definition update_rest :: "val \<Rightarrow> val \<Rightarrow> error + val" where
  "update_rest self base0 =
     and_then (contains self ''bridge.relaybot'') (\<lambda>has_relaybot.
     and_then (if \<not> has_relaybot then
                 copy self base0 ''bridge.authless_relaybot_portals''
                   (Some ''bridge.relaybot.authless_portals'')
               else
                 copies self
                   [''bridge.relaybot.authless_portals'',
                    ''bridge.relaybot.whitelist_group_admins'',
                    ''bridge.relaybot.whitelist'',
                    ''bridge.relaybot.ignore_own_incoming_events''] base0) (\<lambda>base.
     and_then (copies self
        [''telegram.api_id'', ''telegram.api_hash'', ''telegram.bot_token'',
         ''telegram.proxy.type'', ''telegram.proxy.address'', ''telegram.proxy.port'',
         ''telegram.proxy.rdns'', ''telegram.proxy.username'',
         ''telegram.proxy.password''] base) (\<lambda>base.
     and_then (contains self ''appservice.debug'') (\<lambda>has_debug.
     and_then (if has_debug then and_then (contains self ''logging'') (\<lambda>c. Inr (\<not> c))
               else Inr False) (\<lambda>legacy_debug.
     if legacy_debug then
       and_then (getitem self ''appservice.debug'') (\<lambda>debug.
       and_then (setitem base ''logging.root.level''
                   (VStr (if truthy debug then ''DEBUG'' else ''INFO''))) (\<lambda>base.
       and_then (setitem base ''logging.loggers.mau.level''
                   (VStr (if truthy debug then ''DEBUG'' else ''INFO''))) (\<lambda>base.
       setitem base ''logging.loggers.telethon.level''
                   (VStr (if truthy debug then ''DEBUG'' else ''INFO'')))))
     else copy self base ''logging'' None)))))"

text \<open>
  \<^verbatim>\<open>update\<close>. The result is the configuration after the call and the files written.
  \<open>None\<close> stands for a run that leaves the embedding (a key that is not a string, see
  \<open>assign_entry\<close>).
\<close>

definition update ::
  "(val \<Rightarrow> string) \<Rightarrow> string \<Rightarrow> base_file \<Rightarrow> config \<Rightarrow> error + (config \<times> (string \<times> val) list) option"
where
  "update render new_token file cfg =
     and_then (load_base file) (\<lambda>loaded.
       case loaded of
         None \<Rightarrow> Inr (Some (cfg, []))
       | Some base \<Rightarrow>
           and_then (update_general render new_token (cfg_data cfg) base) (\<lambda>(self1, base1).
           and_then (update_permissions self1 base1) (\<lambda>r.
             case r of
               None \<Rightarrow> Inr None
             | Some (self2, base2) \<Rightarrow>
                 and_then (update_rest self2 base2) (\<lambda>base3.
                   Inr (Some (cfg\<lparr>cfg_data := base3\<rparr>, save (cfg\<lparr>cfg_data := base3\<rparr>)))))))"

text \<open>The permission flags \<^verbatim>\<open>(relaybot, user, puppeting, matrix_puppeting, admin, level)\<close>.\<close>

record permission_flags =
  relaybot :: bool
  user :: bool
  puppeting :: bool
  matrix_puppeting :: bool
  admin :: bool
  level :: val

definition get_permissions_key :: "val \<Rightarrow> string \<Rightarrow> error + permission_flags" where
  "get_permissions_key data key =
     and_then (getitem data ''bridge.permissions'') (\<lambda>pm.
     and_then (dict_get pm key (VStr [])) (\<lambda>lv.
       let a = (lv = VStr ''admin'');
           m = (lv = VStr ''full'' \<or> a);
           p = (lv = VStr ''puppeting'' \<or> m);
           u = (lv = VStr ''user'' \<or> p);
           r = (lv = VStr ''relaybot'' \<or> u)
       in Inr \<lparr>relaybot = r, user = u, puppeting = p, matrix_puppeting = m, admin = a,
                level = lv\<rparr>))"

text \<open>\<^verbatim>\<open>mxid[mxid.index(":") + 1:]\<close>: \<^verbatim>\<open>index\<close> raises when there is no colon.\<close>

definition homeserver_of :: "string \<Rightarrow> error + string" where
  "homeserver_of mxid =
     (if CHR '':'' \<in> set mxid then Inr (drop 1 (dropWhile (\<lambda>c. c \<noteq> CHR '':'') mxid))
      else Inl (ValueError ''substring not found''))"

definition get_permissions :: "val \<Rightarrow> string \<Rightarrow> error + permission_flags" where
  "get_permissions data mxid =
     and_then (getitem data ''bridge.permissions'') (\<lambda>pm.
     and_then (py_in mxid (py_or pm (VMap []))) (\<lambda>exact.
       if exact then get_permissions_key data mxid
       else
         and_then (homeserver_of mxid) (\<lambda>homeserver.
         and_then (py_in homeserver (py_or pm (VMap []))) (\<lambda>by_server.
           if by_server then get_permissions_key data homeserver
           else get_permissions_key data ''*''))))"

section \<open>The state store\<close>

text \<open>
  Modelled from the spec: the State Store collaborator (\<^verbatim>\<open>is_joined\<close>, \<^verbatim>\<open>joined\<close>,
  \<^verbatim>\<open>left\<close>, \<^verbatim>\<open>invited\<close>, \<^verbatim>\<open>has_power_level_data\<close>, \<^verbatim>\<open>has_power_level\<close>,
  \<^verbatim>\<open>set_power_levels\<close>), whose class is not among the source files. Per pair of room
  and identity it keeps the booleans joined and invited, and per room the power-level
  content when that has been stored.
\<close>

record state_store =
  st_joined :: "(string \<times> string) set"
  st_invited :: "(string \<times> string) set"
  st_power_levels :: "string \<Rightarrow> val option"

definition is_joined :: "state_store \<Rightarrow> string \<Rightarrow> string \<Rightarrow> bool" where
  "is_joined st room_id who = ((room_id, who) \<in> st_joined st)"

definition joined :: "state_store \<Rightarrow> string \<Rightarrow> string \<Rightarrow> state_store" where
  "joined st room_id who = st\<lparr>st_joined := insert (room_id, who) (st_joined st)\<rparr>"

definition left :: "state_store \<Rightarrow> string \<Rightarrow> string \<Rightarrow> state_store" where
  "left st room_id who = st\<lparr>st_joined := st_joined st - {(room_id, who)}\<rparr>"

definition invited :: "state_store \<Rightarrow> string \<Rightarrow> string \<Rightarrow> state_store" where
  "invited st room_id who = st\<lparr>st_invited := insert (room_id, who) (st_invited st)\<rparr>"

definition has_power_level_data :: "state_store \<Rightarrow> string \<Rightarrow> bool" where
  "has_power_level_data st room_id = (st_power_levels st room_id \<noteq> None)"

definition set_power_levels_store :: "state_store \<Rightarrow> string \<Rightarrow> val \<Rightarrow> state_store" where
  "set_power_levels_store st room_id levels =
     st\<lparr>st_power_levels := (st_power_levels st)(room_id \<mapsto> levels)\<rparr>"

text \<open>
  Modelled from the spec: the level that a power-level content gives to \<open>key\<close> in its
  mapping \<open>field\<close>, else the content's \<open>default_field\<close>, else 0.
\<close>

definition level_in :: "val \<Rightarrow> string \<Rightarrow> string \<Rightarrow> string \<Rightarrow> int" where
  "level_in levels field key default_field =
     (case levels of
        VMap m \<Rightarrow>
          (case (case map_of m field of Some (VMap f) \<Rightarrow> map_of f key | _ \<Rightarrow> None) of
             Some (VInt i) \<Rightarrow> i
           | _ \<Rightarrow> (case map_of m default_field of Some (VInt i) \<Rightarrow> i | _ \<Rightarrow> 0))
      | _ \<Rightarrow> 0)"

text \<open>
  Modelled from the spec: the identity's effective level meets or exceeds the level
  required for the event type.
\<close>

definition has_power_level :: "state_store \<Rightarrow> string \<Rightarrow> string \<Rightarrow> string \<Rightarrow> bool" where
  "has_power_level st room_id who event_type =
     (case st_power_levels st room_id of
        None \<Rightarrow> False
      | Some levels \<Rightarrow>
          level_in levels ''events'' event_type ''events_default''
            \<le> level_in levels ''users'' who ''users_default'')"

section \<open>IntentAPI\<close>

text \<open>
  The pattern \<^verbatim>\<open>@(.+):(.+)\<close> and \<^verbatim>\<open>mxid_regex.search\<close>. A dot matches every
  character but the line feed. \<open>match_with n rest\<close> is the attempt in which the first
  group takes \<open>n\<close> characters of the text \<open>rest\<close> after the \<^verbatim>\<open>@\<close>: a colon has to
  follow, and the second group, greedy, takes the characters up to the next line feed,
  at least one. \<open>backtrack\<close> tries the lengths of the first group from the longest down
  to one, as the greedy quantifier does; \<open>match_at\<close> is the match that starts at the head
  of the string, and \<open>mxid_search\<close> takes the leftmost start that matches. The result is
  the pair of the two groups.
\<close>

definition dot :: "char \<Rightarrow> bool" where
  "dot c = (c \<noteq> CHR 0x0A)"

definition match_with :: "nat \<Rightarrow> string \<Rightarrow> (string \<times> string) option" where
  "match_with n rest =
     (case drop n rest of
        [] \<Rightarrow> None
      | c # tail \<Rightarrow>
          if c = CHR '':'' \<and> takeWhile dot tail \<noteq> []
          then Some (take n rest, takeWhile dot tail) else None)"

fun backtrack :: "nat \<Rightarrow> string \<Rightarrow> (string \<times> string) option" where
  "backtrack 0 rest = None"
| "backtrack (Suc n) rest =
     (case match_with (Suc n) rest of Some g \<Rightarrow> Some g | None \<Rightarrow> backtrack n rest)"

definition match_at :: "string \<Rightarrow> (string \<times> string) option" where
  "match_at s =
     (case s of
        [] \<Rightarrow> None
      | c # rest \<Rightarrow>
          if c = CHR ''@'' then backtrack (length (takeWhile dot rest)) rest else None)"

fun mxid_search :: "string \<Rightarrow> (string \<times> string) option" where
  "mxid_search [] = None"
| "mxid_search (c # cs) =
     (case match_at (c # cs) of Some g \<Rightarrow> Some g | None \<Rightarrow> mxid_search cs)"

text \<open>
  Following the spec's words, for comparison with \<open>mxid_search\<close>: the string has the
  shape \<^verbatim>\<open>@localpart:domain\<close>, an \<^verbatim>\<open>@\<close>, a non-empty localpart, a colon and a
  non-empty domain, and nothing else.
\<close>

definition spec_mxid_shape :: "string \<Rightarrow> bool" where
  "spec_mxid_shape s =
     (case s of
        [] \<Rightarrow> False
      | c # rest \<Rightarrow>
          c = CHR ''@'' \<and> list_ex (\<lambda>n. rest ! n = CHR '':'') [1..<length rest - 1])"

datatype actor = Client | Bot

text \<open>
  What a handle does to the outside, in order: a call of a transport method by the
  handle's client or by the bot, with the arguments; an update of the state store; a
  line that \<^verbatim>\<open>self.log\<close> receives.
\<close>

datatype event =
    Request actor string "val list"
  | StoreJoined string string
  | StoreLeft string string
  | StoreInvited string string
  | StoreSetPowerLevels string val
  | Log string

text \<open>
  The Transport collaborator: what a call answers, given everything the handle did
  before. A call returns a value or raises: a transport error that carries the response
  body (\<^verbatim>\<open>MatrixRequestError\<close>), which is the one exception that the handle's
  \<^verbatim>\<open>except\<close> clauses name, or any other exception.
\<close>

type_synonym transport = "event list \<Rightarrow> actor \<Rightarrow> string \<Rightarrow> val list \<Rightarrow> error + val"

text \<open>\<^verbatim>\<open>except MatrixRequestError as e\<close>: the error that the clause catches, if it does.\<close>

fun caught :: "error \<Rightarrow> request_error option" where
  "caught (MatrixRequestError e) = Some e"
| "caught x = None"

text \<open>
  An \<^verbatim>\<open>IntentAPI\<close> object. \<open>bot\<close> tells whether \<^verbatim>\<open>self.bot\<close> is set (an
  \<^verbatim>\<open>HTTPAPI\<close> object is always truthy) and \<open>log\<close> whether \<^verbatim>\<open>self.log\<close> is (the
  constructor's default is \<^verbatim>\<open>None\<close>); \<open>domain\<close> is \<^verbatim>\<open>self.client.domain\<close>, and
  \<open>trace\<close> records the effects so far.
\<close>

record intent =
  mxid :: string
  localpart :: string
  bot :: bool
  log :: bool
  domain :: string
  registered :: bool
  state_store :: state_store
  trace :: "event list"

definition init ::
  "string \<Rightarrow> bool \<Rightarrow> bool \<Rightarrow> string \<Rightarrow> state_store \<Rightarrow> error + intent"
where
  "init mxid0 bot0 log0 domain0 state_store0 =
     (case mxid_search mxid0 of
        None \<Rightarrow> Inl (ValueError ''invalid MXID'')
      | Some results \<Rightarrow>
          Inr \<lparr>mxid = mxid0, localpart = fst results, bot = bot0, log = log0,
               domain = domain0, registered = False, state_store = state_store0,
               trace = []\<rparr>)"

definition matrix_error_code :: "request_error \<Rightarrow> string" where
  "matrix_error_code err = (case json_errcode err of Some c \<Rightarrow> c | None \<Rightarrow> content err)"

definition emit :: "event \<Rightarrow> intent \<Rightarrow> intent" where
  "emit e s = s\<lparr>trace := trace s @ [e]\<rparr>"

text \<open>A call of a transport method: the answer and the handle after the call.\<close>

definition request ::
  "transport \<Rightarrow> actor \<Rightarrow> string \<Rightarrow> val list \<Rightarrow> intent \<Rightarrow> (error + val) \<times> intent"
where
  "request tr a method args s = (tr (trace s) a method args, emit (Request a method args) s)"

text \<open>A call outside a \<^verbatim>\<open>try\<close>: whatever the transport raises leaves the method.\<close>

definition call ::
  "transport \<Rightarrow> actor \<Rightarrow> string \<Rightarrow> val list \<Rightarrow> intent \<Rightarrow> (error + val) \<times> intent"
where
  "call tr a method args s = request tr a method args s"

definition then_do ::
  "(error + 'a) \<times> intent \<Rightarrow> ('a \<Rightarrow> intent \<Rightarrow> (error + 'b) \<times> intent) \<Rightarrow> (error + 'b) \<times> intent"
where
  "then_do r f = (case r of (Inl e, s) \<Rightarrow> (Inl e, s) | (Inr x, s) \<Rightarrow> f x s)"

definition store_joined :: "string \<Rightarrow> intent \<Rightarrow> intent" where
  "store_joined room_id s =
     emit (StoreJoined room_id (mxid s))
       (s\<lparr>state_store := joined (state_store s) room_id (mxid s)\<rparr>)"

definition store_left :: "string \<Rightarrow> intent \<Rightarrow> intent" where
  "store_left room_id s =
     emit (StoreLeft room_id (mxid s))
       (s\<lparr>state_store := left (state_store s) room_id (mxid s)\<rparr>)"

definition store_invited :: "string \<Rightarrow> string \<Rightarrow> intent \<Rightarrow> intent" where
  "store_invited room_id user_id s =
     emit (StoreInvited room_id user_id)
       (s\<lparr>state_store := invited (state_store s) room_id user_id\<rparr>)"

definition store_set_power_levels :: "string \<Rightarrow> val \<Rightarrow> intent \<Rightarrow> intent" where
  "store_set_power_levels room_id levels s =
     emit (StoreSetPowerLevels room_id levels)
       (s\<lparr>state_store := set_power_levels_store (state_store s) room_id levels\<rparr>)"

text \<open>
  \<^verbatim>\<open>_ensure_registered\<close>. An exception that the \<^verbatim>\<open>except\<close> clause does not catch
  leaves the method before the flag is set; so does the \<^verbatim>\<open>AttributeError\<close> of
  \<^verbatim>\<open>self.log.exception\<close> when \<^verbatim>\<open>self.log\<close> is \<^verbatim>\<open>None\<close>.
\<close>

definition ensure_registered :: "transport \<Rightarrow> intent \<Rightarrow> (error + unit) \<times> intent" where
  "ensure_registered tr s =
     (if registered s then (Inr (), s)
      else
        (case request tr Client ''register'' [VMap [(''username'', VStr (localpart s))]] s of
           (Inr v, s1) \<Rightarrow> (Inr (), s1\<lparr>registered := True\<rparr>)
         | (Inl x, s1) \<Rightarrow>
             (case caught x of
                None \<Rightarrow> (Inl x, s1)
              | Some e \<Rightarrow>
                  if matrix_error_code e \<noteq> ''M_USER_IN_USE'' then
                    (if log s1
                     then (Inr (),
                           (emit (Log (''Failed to register '' @ mxid s @ ''!'')) s1)
                             \<lparr>registered := True\<rparr>)
                     else (Inl AttributeError, s1))
                  else (Inr (), s1\<lparr>registered := True\<rparr>))))"

definition join_failed :: "string \<Rightarrow> intent \<Rightarrow> request_error \<Rightarrow> error" where
  "join_failed room_id s e =
     IntentError (''Failed to join room '' @ room_id @ '' as '' @ mxid s) e"

definition ensure_joined :: "transport \<Rightarrow> string \<Rightarrow> bool \<Rightarrow> intent \<Rightarrow> (error + unit) \<times> intent" where
  "ensure_joined tr room_id ignore_cache s =
     (if \<not> ignore_cache \<and> is_joined (state_store s) room_id (mxid s) then (Inr (), s)
      else
        then_do (ensure_registered tr s) (\<lambda>_ s1.
          case request tr Client ''join_room'' [VStr room_id] s1 of
            (Inr v, s2) \<Rightarrow> (Inr (), store_joined room_id s2)
          | (Inl x, s2) \<Rightarrow>
             (case caught x of
                None \<Rightarrow> (Inl x, s2)
              | Some e \<Rightarrow>
                  if matrix_error_code e \<noteq> ''M_FORBIDDEN'' \<and> \<not> bot s2
                  then (Inl (join_failed room_id s2 e), s2)
                  else if \<not> bot s2 then (Inl AttributeError, s2)
                  else
                    (case request tr Bot ''invite_user'' [VStr room_id, VStr (mxid s2)] s2 of
                       (Inl x2, s3) \<Rightarrow>
                         (case caught x2 of
                            None \<Rightarrow> (Inl x2, s3)
                          | Some e2 \<Rightarrow> (Inl (join_failed room_id s3 e2), s3))
                     | (Inr v, s3) \<Rightarrow>
                         (case request tr Client ''join_room'' [VStr room_id] s3 of
                            (Inl x2, s4) \<Rightarrow>
                              (case caught x2 of
                                 None \<Rightarrow> (Inl x2, s4)
                               | Some e2 \<Rightarrow> (Inl (join_failed room_id s4 e2), s4))
                          | (Inr v, s4) \<Rightarrow> (Inr (), store_joined room_id s4))))))"

definition leave_room :: "transport \<Rightarrow> string \<Rightarrow> intent \<Rightarrow> (error + val) \<times> intent" where
  "leave_room tr room_id s = call tr Client ''leave_room'' [VStr room_id] (store_left room_id s)"

definition join_room :: "transport \<Rightarrow> string \<Rightarrow> intent \<Rightarrow> (error + unit) \<times> intent" where
  "join_room tr room_id s = ensure_joined tr room_id True s"

definition get_power_levels :: "transport \<Rightarrow> string \<Rightarrow> intent \<Rightarrow> (error + val) \<times> intent" where
  "get_power_levels tr room_id s =
     then_do (ensure_joined tr room_id False s) (\<lambda>_ s1.
     then_do (call tr Client ''get_power_levels'' [VStr room_id] s1) (\<lambda>levels s2.
       (Inr levels, store_set_power_levels room_id levels s2)))"

text \<open>
  \<^verbatim>\<open>_ensure_has_power_level_for\<close>: the three ways out of the check of the level all
  return without a value and without an effect.
\<close>

definition ensure_has_power_level_for ::
  "transport \<Rightarrow> string \<Rightarrow> string \<Rightarrow> intent \<Rightarrow> (error + unit) \<times> intent"
where
  "ensure_has_power_level_for tr room_id event_type s =
     then_do (if \<not> has_power_level_data (state_store s) room_id
              then get_power_levels tr room_id s else (Inr VNull, s)) (\<lambda>_ s1.
       if has_power_level (state_store s1) room_id (mxid s1) event_type then (Inr (), s1)
       else if \<not> bot s1 then (Inr (), s1)
       else (Inr (), s1))"

definition send_event ::
  "transport \<Rightarrow> string \<Rightarrow> string \<Rightarrow> val \<Rightarrow> val \<Rightarrow> intent \<Rightarrow> (error + val) \<times> intent"
where
  "send_event tr room_id event_type body txn_id s =
     then_do (ensure_joined tr room_id False s) (\<lambda>_ s1.
     then_do (ensure_has_power_level_for tr room_id event_type s1) (\<lambda>_ s2.
       call tr Client ''send_message_event'' [VStr room_id, VStr event_type, body, txn_id] s2))"

definition send_state_event ::
  "transport \<Rightarrow> string \<Rightarrow> string \<Rightarrow> val \<Rightarrow> val \<Rightarrow> intent \<Rightarrow> (error + val) \<times> intent"
where
  "send_state_event tr room_id event_type body state_key s =
     then_do (ensure_joined tr room_id False s) (\<lambda>_ s1.
     then_do (ensure_has_power_level_for tr room_id event_type s1) (\<lambda>_ s2.
       call tr Client ''send_state_event'' [VStr room_id, VStr event_type, body, state_key] s2))"

definition send_message :: "transport \<Rightarrow> string \<Rightarrow> val \<Rightarrow> intent \<Rightarrow> (error + val) \<times> intent" where
  "send_message tr room_id body s = send_event tr room_id ''m.room.message'' body VNull s"

definition send_text ::
  "transport \<Rightarrow> string \<Rightarrow> val \<Rightarrow> val \<Rightarrow> string \<Rightarrow> intent \<Rightarrow> (error + val) \<times> intent"
where
  "send_text tr room_id text0 html msgtype s =
     (if truthy html then
        send_message tr room_id
          (VMap [(''body'', if \<not> truthy text0 then html else text0),
                 (''msgtype'', VStr msgtype),
                 (''format'', VStr ''org.matrix.custom.html''),
                 (''formatted_body'', py_or html (if \<not> truthy text0 then html else text0))]) s
      else
        send_message tr room_id (VMap [(''body'', text0), (''msgtype'', VStr msgtype)]) s)"

definition send_notice :: "transport \<Rightarrow> string \<Rightarrow> val \<Rightarrow> val \<Rightarrow> intent \<Rightarrow> (error + val) \<times> intent" where
  "send_notice tr room_id text0 html s = send_text tr room_id text0 html ''m.notice'' s"

definition send_emote :: "transport \<Rightarrow> string \<Rightarrow> val \<Rightarrow> val \<Rightarrow> intent \<Rightarrow> (error + val) \<times> intent" where
  "send_emote tr room_id text0 html s = send_text tr room_id text0 html ''m.emote'' s"

definition send_file ::
  "transport \<Rightarrow> string \<Rightarrow> val \<Rightarrow> val \<Rightarrow> val \<Rightarrow> string \<Rightarrow> intent \<Rightarrow> (error + val) \<times> intent"
where
  "send_file tr room_id url info text0 msgtype s =
     send_message tr room_id
       (VMap [(''msgtype'', VStr msgtype), (''url'', url),
              (''body'', py_or text0 (VStr ''Uploaded file'')), (''info'', info)]) s"

definition send_image ::
  "transport \<Rightarrow> string \<Rightarrow> val \<Rightarrow> val \<Rightarrow> val \<Rightarrow> intent \<Rightarrow> (error + val) \<times> intent"
where
  "send_image tr room_id url info text0 s = send_file tr room_id url info text0 ''m.image'' s"

definition error_and_leave ::
  "transport \<Rightarrow> string \<Rightarrow> val \<Rightarrow> val \<Rightarrow> intent \<Rightarrow> (error + val) \<times> intent"
where
  "error_and_leave tr room_id text0 html s =
     then_do (ensure_joined tr room_id False s) (\<lambda>_ s1.
     then_do (send_notice tr room_id text0 html s1) (\<lambda>_ s2.
     then_do (leave_room tr room_id s2) (\<lambda>_ s3. (Inr VNull, s3))))"

definition kick :: "transport \<Rightarrow> string \<Rightarrow> val \<Rightarrow> val \<Rightarrow> intent \<Rightarrow> (error + val) \<times> intent" where
  "kick tr room_id user_id message s =
     then_do (ensure_joined tr room_id False s) (\<lambda>_ s1.
       call tr Client ''kick_user'' [VStr room_id, user_id, message] s1)"

definition invite :: "transport \<Rightarrow> string \<Rightarrow> string \<Rightarrow> intent \<Rightarrow> (error + val) \<times> intent" where
  "invite tr room_id user_id s =
     then_do (ensure_joined tr room_id False s) (\<lambda>_ s1.
       case request tr Client ''invite_user'' [VStr room_id, VStr user_id] s1 of
         (Inr response, s2) \<Rightarrow> (Inr response, store_invited room_id user_id s2)
       | (Inl x, s2) \<Rightarrow>
          (case caught x of
             None \<Rightarrow> (Inl x, s2)
           | Some e \<Rightarrow>
               if matrix_error_code e \<noteq> ''M_FORBIDDEN''
               then (Inl (IntentError (''Failed to invite '' @ user_id @ '' to '' @ room_id) e), s2)
               else (Inr VNull, s2)))"

definition set_room_avatar ::
  "transport \<Rightarrow> string \<Rightarrow> val \<Rightarrow> val \<Rightarrow> intent \<Rightarrow> (error + val) \<times> intent"
where
  "set_room_avatar tr room_id avatar_url info s =
     send_state_event tr room_id ''m.room.avatar''
       (VMap ((''url'', avatar_url) # (if truthy info then [(''info'', info)] else [])))
       (VStr []) s"

definition add_room_alias :: "transport \<Rightarrow> string \<Rightarrow> string \<Rightarrow> intent \<Rightarrow> (error + val) \<times> intent" where
  "add_room_alias tr room_id alias s =
     then_do (ensure_registered tr s) (\<lambda>_ s1.
     then_do (call tr Client ''set_room_alias''
                [VStr room_id, VStr (''#'' @ alias @ '':'' @ domain s1)] s1) (\<lambda>_ s2.
       (Inr VNull, s2)))"

definition remove_room_alias :: "transport \<Rightarrow> string \<Rightarrow> intent \<Rightarrow> (error + val) \<times> intent" where
  "remove_room_alias tr alias s =
     then_do (ensure_registered tr s) (\<lambda>_ s1.
     then_do (call tr Client ''remove_room_alias''
                [VStr (''#'' @ alias @ '':'' @ domain s1)] s1) (\<lambda>_ s2.
       (Inr VNull, s2)))"

definition set_room_name :: "transport \<Rightarrow> string \<Rightarrow> val \<Rightarrow> intent \<Rightarrow> (error + val) \<times> intent" where
  "set_room_name tr room_id name s =
     then_do (ensure_joined tr room_id False s) (\<lambda>_ s1.
     then_do (ensure_has_power_level_for tr room_id ''m.room.name'' s1) (\<lambda>_ s2.
       call tr Client ''set_room_name'' [VStr room_id, name] s2))"

definition set_power_levels :: "transport \<Rightarrow> string \<Rightarrow> val \<Rightarrow> intent \<Rightarrow> (error + val) \<times> intent" where
  "set_power_levels tr room_id levels s =
     then_do (send_state_event tr room_id ''m.room.power_levels'' levels (VStr []) s)
       (\<lambda>response s1. (Inr response, store_set_power_levels room_id levels s1))"

definition set_typing :: "transport \<Rightarrow> string \<Rightarrow> val \<Rightarrow> val \<Rightarrow> intent \<Rightarrow> (error + val) \<times> intent" where
  "set_typing tr room_id is_typing timeout s =
     then_do (ensure_joined tr room_id False s) (\<lambda>_ s1.
       call tr Client ''set_typing'' [VStr room_id, is_typing, timeout] s1)"

definition get_room_memberships :: "transport \<Rightarrow> string \<Rightarrow> intent \<Rightarrow> (error + val) \<times> intent" where
  "get_room_memberships tr room_id s = call tr Client ''get_room_members'' [VStr room_id] s"

text \<open>
  The comprehension of \<^verbatim>\<open>get_room_members\<close>: the state keys of the memberships whose
  \<^verbatim>\<open>content.membership\<close> is among the allowed ones.
\<close>

fun member_keys :: "val list \<Rightarrow> val list \<Rightarrow> error + val list" where
  "member_keys allowed [] = Inr []"
| "member_keys allowed (membership # rest) =
     (case py_index membership ''content'' of
        Inl e \<Rightarrow> Inl e
      | Inr c \<Rightarrow>
         (case py_index c ''membership'' of
            Inl e \<Rightarrow> Inl e
          | Inr m \<Rightarrow>
             (case (if m \<in> set allowed then py_index membership ''state_key'' else Inr VNull) of
                Inl e \<Rightarrow> Inl e
              | Inr k \<Rightarrow>
                 (case member_keys allowed rest of
                    Inl e \<Rightarrow> Inl e
                  | Inr ks \<Rightarrow> Inr (if m \<in> set allowed then k # ks else ks)))))"

definition get_room_members ::
  "transport \<Rightarrow> string \<Rightarrow> val list \<Rightarrow> intent \<Rightarrow> (error + val) \<times> intent"
where
  "get_room_members tr room_id allowed_memberships s =
     then_do (get_room_memberships tr room_id s) (\<lambda>memberships s1.
       (and_then (py_index memberships ''chunk'') (\<lambda>chunk.
        and_then (py_iter chunk) (\<lambda>ms.
        and_then (member_keys allowed_memberships ms) (\<lambda>ks. Inr (VList ks)))), s1))"

definition get_room_state :: "transport \<Rightarrow> string \<Rightarrow> intent \<Rightarrow> (error + val) \<times> intent" where
  "get_room_state tr room_id s =
     then_do (ensure_joined tr room_id False s) (\<lambda>_ s1.
       call tr Client ''get_room_state'' [VStr room_id] s1)"

definition set_display_name :: "transport \<Rightarrow> val \<Rightarrow> intent \<Rightarrow> (error + val) \<times> intent" where
  "set_display_name tr name s =
     then_do (ensure_registered tr s) (\<lambda>_ s1.
       call tr Client ''set_display_name'' [VStr (mxid s1), name] s1)"

definition set_presence :: "transport \<Rightarrow> val \<Rightarrow> intent \<Rightarrow> (error + val) \<times> intent" where
  "set_presence tr status s =
     then_do (ensure_registered tr s) (\<lambda>_ s1. call tr Client ''set_presence'' [status] s1)"

definition set_avatar :: "transport \<Rightarrow> val \<Rightarrow> intent \<Rightarrow> (error + val) \<times> intent" where
  "set_avatar tr url s =
     then_do (ensure_registered tr s) (\<lambda>_ s1.
       call tr Client ''set_avatar_url'' [VStr (mxid s1), url] s1)"

text \<open>\<open>guessed\<close> is what \<^verbatim>\<open>magic.from_buffer(data, mime=True)\<close> returns.\<close>

definition upload_file :: "transport \<Rightarrow> val \<Rightarrow> val \<Rightarrow> val \<Rightarrow> intent \<Rightarrow> (error + val) \<times> intent" where
  "upload_file tr file_data mime_type guessed s =
     then_do (ensure_registered tr s) (\<lambda>_ s1.
       call tr Client ''media_upload'' [file_data, py_or mime_type guessed] s1)"

text \<open>
  \<^verbatim>\<open>download_file\<close> reads the URL with \<^verbatim>\<open>urllib\<close>, not with the client; the model
  records the read as a call of the same transport.
\<close>

definition download_file :: "transport \<Rightarrow> val \<Rightarrow> intent \<Rightarrow> (error + val) \<times> intent" where
  "download_file tr url s =
     then_do (ensure_registered tr s) (\<lambda>_ s1.
     then_do (call tr Client ''get_download_url'' [url] s1) (\<lambda>url' s2.
       call tr Client ''urllib.request.urlopen'' [url'] s2))"

definition create_room :: "transport \<Rightarrow> val list \<Rightarrow> intent \<Rightarrow> (error + val) \<times> intent" where
  "create_room tr args s =
     then_do (ensure_registered tr s) (\<lambda>_ s1. call tr Client ''create_room'' args s1)"

text \<open>
  \<^verbatim>\<open>user\<close> returns the handle of another identity; of this handle it changes nothing
  but the log (and nothing at all when \<^verbatim>\<open>self.log\<close> is \<^verbatim>\<open>None\<close> and the warning
  raises).
\<close>

definition user_handle :: "string \<Rightarrow> intent \<Rightarrow> intent" where
  "user_handle who s =
     (if \<not> bot s then s
      else if log s then emit (Log ''Called IntentAPI#user() of child intent object.'') s
      else s)"

text \<open>The methods of a handle, and the handle after a call of one.\<close>

datatype operation =
    SetDisplayName val
  | SetPresence val
  | SetAvatar val
  | UploadFile val val val
  | DownloadFile val
  | CreateRoom "val list"
  | Invite string string
  | SetRoomAvatar string val val
  | AddRoomAlias string string
  | RemoveRoomAlias string
  | SetRoomName string val
  | GetPowerLevels string
  | SetPowerLevels string val
  | SetTyping string val val
  | SendNotice string val val
  | SendEmote string val val
  | SendImage string val val val
  | SendFile string val val val string
  | SendText string val val string
  | SendMessage string val
  | ErrorAndLeave string val val
  | Kick string val val
  | SendEvent string string val val
  | SendStateEvent string string val val
  | JoinRoom string
  | LeaveRoom string
  | GetRoomMemberships string
  | GetRoomMembers string "val list"
  | GetRoomState string
  | User string
  | EnsureJoined string bool
  | EnsureRegistered
  | EnsureHasPowerLevelFor string string

primrec after :: "transport \<Rightarrow> operation \<Rightarrow> intent \<Rightarrow> intent" where
  "after tr (SetDisplayName n) s = snd (set_display_name tr n s)"
| "after tr (SetPresence st) s = snd (set_presence tr st s)"
| "after tr (SetAvatar u) s = snd (set_avatar tr u s)"
| "after tr (UploadFile d m g) s = snd (upload_file tr d m g s)"
| "after tr (DownloadFile u) s = snd (download_file tr u s)"
| "after tr (CreateRoom args) s = snd (create_room tr args s)"
| "after tr (Invite r u) s = snd (invite tr r u s)"
| "after tr (SetRoomAvatar r u i) s = snd (set_room_avatar tr r u i s)"
| "after tr (AddRoomAlias r a) s = snd (add_room_alias tr r a s)"
| "after tr (RemoveRoomAlias a) s = snd (remove_room_alias tr a s)"
| "after tr (SetRoomName r n) s = snd (set_room_name tr r n s)"
| "after tr (GetPowerLevels r) s = snd (get_power_levels tr r s)"
| "after tr (SetPowerLevels r c) s = snd (set_power_levels tr r c s)"
| "after tr (SetTyping r t ms) s = snd (set_typing tr r t ms s)"
| "after tr (SendNotice r t h) s = snd (send_notice tr r t h s)"
| "after tr (SendEmote r t h) s = snd (send_emote tr r t h s)"
| "after tr (SendImage r u i t) s = snd (send_image tr r u i t s)"
| "after tr (SendFile r u i t m) s = snd (send_file tr r u i t m s)"
| "after tr (SendText r t h m) s = snd (send_text tr r t h m s)"
| "after tr (SendMessage r b) s = snd (send_message tr r b s)"
| "after tr (ErrorAndLeave r t h) s = snd (error_and_leave tr r t h s)"
| "after tr (Kick r u m) s = snd (kick tr r u m s)"
| "after tr (SendEvent r t b x) s = snd (send_event tr r t b x s)"
| "after tr (SendStateEvent r t b k) s = snd (send_state_event tr r t b k s)"
| "after tr (JoinRoom r) s = snd (join_room tr r s)"
| "after tr (LeaveRoom r) s = snd (leave_room tr r s)"
| "after tr (GetRoomMemberships r) s = snd (get_room_memberships tr r s)"
| "after tr (GetRoomMembers r a) s = snd (get_room_members tr r a s)"
| "after tr (GetRoomState r) s = snd (get_room_state tr r s)"
| "after tr (User u) s = user_handle u s"
| "after tr (EnsureJoined r c) s = snd (ensure_joined tr r c s)"
| "after tr EnsureRegistered s = snd (ensure_registered tr s)"
| "after tr (EnsureHasPowerLevelFor r t) s = snd (ensure_has_power_level_for tr r t s)"

text \<open>The handle after a sequence of calls.\<close>

fun after_all :: "transport \<Rightarrow> operation list \<Rightarrow> intent \<Rightarrow> intent" where
  "after_all tr [] s = s"
| "after_all tr (op # ops) s = after_all tr ops (after tr op s)"

text \<open>Whether an effect is a call of the given transport method.\<close>

definition is_request :: "string \<Rightarrow> event \<Rightarrow> bool" where
  "is_request method e = (case e of Request a m args \<Rightarrow> m = method | _ \<Rightarrow> False)"

section \<open>Example values\<close>

text \<open>
  A state store that knows nothing and the handle that \<^verbatim>\<open>__init__\<close> builds for
  \<^verbatim>\<open>@puppet:example.org\<close> on it, with a logger. The response whose body is the JSON
  object with the given \<^verbatim>\<open>errcode\<close>. Transports: one on which every call succeeds,
  one on which every \<^verbatim>\<open>join_room\<close> fails with the given body, one on which
  \<^verbatim>\<open>register\<close> raises the given exception, and one on which \<^verbatim>\<open>join_room\<close> is
  refused with \<^verbatim>\<open>M_FORBIDDEN\<close> until the bot has invited.
\<close>

definition empty_store :: state_store where
  "empty_store = \<lparr>st_joined = {}, st_invited = {}, st_power_levels = (\<lambda>r. None)\<rparr>"

definition fresh_handle :: "bool \<Rightarrow> intent" where
  "fresh_handle b =
     \<lparr>mxid = ''@puppet:example.org'', localpart = ''puppet'', bot = b, log = True,
      domain = ''example.org'', registered = False, state_store = empty_store, trace = []\<rparr>"

definition errcode_response :: "string \<Rightarrow> request_error" where
  "errcode_response code =
     RequestError (''{'' @ [CHR 0x22] @ ''errcode'' @ [CHR 0x22] @ '': '' @ [CHR 0x22] @ code
                     @ [CHR 0x22] @ ''}'')
       (Some code)"

definition always_ok :: transport where
  "always_ok h a method args = Inr VNull"

definition join_fails_with :: "string \<Rightarrow> transport" where
  "join_fails_with body h a method args =
     (if method = ''join_room'' then Inl (MatrixRequestError (RequestError body None))
      else Inr VNull)"

definition register_raises :: "error \<Rightarrow> transport" where
  "register_raises x h a method args = (if method = ''register'' then Inl x else Inr VNull)"

definition join_needs_invite :: transport where
  "join_needs_invite h a method args =
     (if method = ''join_room'' \<and> \<not> list_ex (is_request ''invite_user'') h
      then Inl (MatrixRequestError (errcode_response ''M_FORBIDDEN''))
      else Inr VNull)"

text \<open>
  A source document whose whitelist and admin list are both \<^verbatim>\<open>["@a:x"]\<close>, a base
  template with a permission map of its own, and a configuration that holds the source.
\<close>

definition example_source :: val where
  "example_source =
     VMap [(''bridge'', VMap [(''whitelist'', VList [VStr ''@a:x'']),
                              (''admins'', VList [VStr ''@a:x''])])]"

definition example_base :: val where
  "example_base = VMap [(''bridge'', VMap [(''permissions'', VMap [(''*'', VStr ''relaybot'')])])]"

definition example_config :: config where
  "example_config =
     \<lparr>cfg_data = example_source, cfg_path = ''config.yaml'',
      cfg_registration_path = ''registration.yaml'', cfg_base_path = ''example-config.yaml'',
      cfg_registration = VNull\<rparr>"

section \<open>Dotted paths\<close>

declare recursive_get.simps [simp del] recursive_set.simps [simp del]
  recursive_del.simps [simp del] path_clear.simps [simp del]

lemma in_keys_map_of: "(k \<in> fst ` set m) = (map_of m k \<noteq> None)"
  by (simp add: map_of_eq_None_iff)

lemma map_of_update_same: "map_of (AList.update k v m) k = Some v"
  by (simp add: update_conv')

lemma map_of_update_other: "k' \<noteq> k \<Longrightarrow> map_of (AList.update k v m) k' = map_of m k'"
  by (simp add: update_conv')

lemma recursive_get_nodot: "\<not> has_dot key \<Longrightarrow> recursive_get data key d = dict_get data key d"
  by (simp add: recursive_get.simps)

lemma recursive_get_dot:
  "has_dot key \<Longrightarrow> recursive_get (VMap m) key d =
     recursive_get (case map_of m (key_head key) of Some v \<Rightarrow> v | None \<Rightarrow> VMap []) (key_rest key) d"
  by (simp add: recursive_get.simps[of "VMap m"])

lemma recursive_set_nodot: "\<not> has_dot key \<Longrightarrow> recursive_set data key v = py_setitem data key v"
  by (simp add: recursive_set.simps)

lemma recursive_set_dot:
  "has_dot key \<Longrightarrow> recursive_set (VMap m) key v =
     (case recursive_set (case map_of m (key_head key) of Some c \<Rightarrow> c | None \<Rightarrow> VMap [])
             (key_rest key) v of
        Inl e \<Rightarrow> Inl e
      | Inr c' \<Rightarrow> Inr (VMap (AList.update (key_head key) c' m)))"
  by (cases "map_of m (key_head key)")
     (simp_all add: recursive_set.simps[of "VMap m"] in_keys_map_of map_of_update_same
        split: sum.splits)

lemma recursive_del_nodot: "\<not> has_dot key \<Longrightarrow> recursive_del data key = py_delitem data key"
  by (simp add: recursive_del.simps)

lemma recursive_del_dot:
  "has_dot key \<Longrightarrow> recursive_del (VMap m) key =
     (case map_of m (key_head key) of
        None \<Rightarrow> Inr (VMap m)
      | Some c \<Rightarrow>
         (case recursive_del c (key_rest key) of
            Inl e \<Rightarrow> Inl e
          | Inr c' \<Rightarrow> Inr (VMap (AList.update (key_head key) c' m))))"
  by (cases "map_of m (key_head key)")
     (simp_all add: recursive_del.simps[of "VMap m"] in_keys_map_of split: sum.splits)

lemma path_clear_VMap:
  "path_clear (VMap m) key =
     (has_dot key \<longrightarrow> (case map_of m (key_head key) of None \<Rightarrow> True
         | Some child \<Rightarrow> path_clear child (key_rest key)))"
  by (simp add: path_clear.simps[of "VMap m"])

lemma path_clear_is_map: "path_clear data key \<Longrightarrow> \<exists>m. data = VMap m"
  by (cases data) (simp_all add: path_clear.simps)

lemma path_clear_empty: "path_clear (VMap []) key"
  by (simp add: path_clear_VMap)

lemma path_clear_child:
  assumes "path_clear (VMap m) key" and "has_dot key"
  shows "path_clear (case map_of m (key_head key) of Some v \<Rightarrow> v | None \<Rightarrow> VMap []) (key_rest key)"
  using assms by (auto simp: path_clear_VMap path_clear_empty split: option.splits)

lemma recursive_get_empty: "recursive_get (VMap []) key d = Inr d"
proof (induction "length key" arbitrary: key rule: less_induct)
  case less
  show ?case
  proof (cases "has_dot key")
    case True
    then show ?thesis using less[of "key_rest key"]
      by (simp add: recursive_get_dot key_rest_shorter)
  next
    case False
    then show ?thesis by (simp add: recursive_get_nodot)
  qed
qed

lemma get_clear: "path_clear data key \<Longrightarrow> \<exists>r. recursive_get data key d = Inr r"
proof (induction "length key" arbitrary: key data rule: less_induct)
  case less
  from less.prems obtain m where m: "data = VMap m"
    using path_clear_is_map by blast
  show ?case
  proof (cases "has_dot key")
    case False
    then show ?thesis using m by (simp add: recursive_get_nodot)
  next
    case True
    then show ?thesis
      using less.hyps[OF key_rest_shorter[OF True] path_clear_child[of m key]] less.prems m
      by (simp add: recursive_get_dot)
  qed
qed

lemma set_clear:
  "path_clear data key \<Longrightarrow>
     \<exists>doc. recursive_set data key v = Inr doc \<and> recursive_get doc key d = Inr v"
proof (induction "length key" arbitrary: key data rule: less_induct)
  case less
  from less.prems obtain m where m: "data = VMap m"
    using path_clear_is_map by blast
  show ?case
  proof (cases "has_dot key")
    case False
    then show ?thesis using m
      by (simp add: recursive_set_nodot recursive_get_nodot map_of_update_same)
  next
    case True
    from less.hyps[OF key_rest_shorter[OF True] path_clear_child[of m key]] less.prems m True
    obtain c' where c':
      "recursive_set (case map_of m (key_head key) of Some c \<Rightarrow> c | None \<Rightarrow> VMap [])
         (key_rest key) v = Inr c'"
      "recursive_get c' (key_rest key) d = Inr v" by blast
    then show ?thesis using m True
      by (simp add: recursive_set_dot recursive_get_dot map_of_update_same)
  qed
qed

lemma del_clear: "path_clear data key \<Longrightarrow> \<exists>r. recursive_del data key = Inr r"
proof (induction "length key" arbitrary: key data rule: less_induct)
  case less
  from less.prems obtain m where m: "data = VMap m"
    using path_clear_is_map by blast
  show ?case
  proof (cases "has_dot key")
    case False
    then show ?thesis using m by (simp add: recursive_del_nodot)
  next
    case True
    show ?thesis
    proof (cases "map_of m (key_head key)")
      case None
      then show ?thesis using m True by (simp add: recursive_del_dot)
    next
      case (Some c)
      then have "path_clear c (key_rest key)"
        using less.prems m True by (simp add: path_clear_VMap)
      from less.hyps[OF key_rest_shorter[OF True] this]
      obtain c' where "recursive_del c (key_rest key) = Inr c'" by blast
      then show ?thesis using m True Some by (simp add: recursive_del_dot)
    qed
  qed
qed

lemma set_materializes:
  assumes "has_dot key" and "path_clear (VMap m) key"
  shows "\<exists>doc c. recursive_set (VMap m) key v = Inr doc \<and>
           dict_get doc (key_head key) VNull = Inr (VMap c)"
proof -
  let ?child = "case map_of m (key_head key) of Some c \<Rightarrow> c | None \<Rightarrow> VMap []"
  have pc: "path_clear ?child (key_rest key)"
    using assms by (rule_tac path_clear_child)
  then obtain c' where c': "recursive_set ?child (key_rest key) v = Inr c'"
    using set_clear by blast
  obtain cm where cm: "?child = VMap cm" using pc path_clear_is_map by blast
  have "\<exists>c. c' = VMap c"
  proof (cases "has_dot (key_rest key)")
    case True
    then show ?thesis using c' cm
      by (auto simp: recursive_set_dot split: sum.splits)
  next
    case False
    then show ?thesis using c' cm by (auto simp: recursive_set_nodot)
  qed
  then show ?thesis using c' assms(1)
    by (auto simp: recursive_set_dot map_of_update_same)
qed

text \<open>
  Claim C3. On the empty document a dotted read of \<^verbatim>\<open>a.b.c\<close> returns the default;
  after writing \<^verbatim>\<open>a.b.c\<close> the read returns the written value and \<^verbatim>\<open>a.b\<close> is a
  mapping. In general, when every node that is present on the way of a dotted key is a
  mapping (so that only absent segments stand in the way), \<^verbatim>\<open>get\<close>, \<^verbatim>\<open>set\<close> and
  \<^verbatim>\<open>delete\<close> return without an error, the read after the write returns the written
  value, and the write leaves a mapping under the first segment; and when the first
  segment is absent the read returns the default, as on an empty node, and the delete
  leaves the document as it is.
\<close>

theorem dotted_access_absent_segments:
  "get (VMap []) ''a.b.c'' d True = Inr d \<and>
   (\<exists>doc. set_key (VMap []) ''a.b.c'' v True = Inr doc \<and>
      get doc ''a.b.c'' d True = Inr v \<and>
      (\<exists>m. get doc ''a.b'' d True = Inr (VMap m))) \<and>
   (has_dot key \<and> path_clear data key \<longrightarrow>
      (\<exists>r. get data key d True = Inr r) \<and>
      (\<exists>doc c. set_key data key v True = Inr doc \<and> get doc key d True = Inr v \<and>
         dict_get doc (key_head key) VNull = Inr (VMap c)) \<and>
      (\<exists>doc. delete data key True = Inr doc)) \<and>
   (has_dot key \<and> map_of m (key_head key) = None \<longrightarrow>
      get (VMap m) key d True = Inr d \<and> delete (VMap m) key True = Inr (VMap m))"
proof (intro conjI impI)
  show "get (VMap []) ''a.b.c'' d True = Inr d"
    by (simp add: get_def recursive_get_empty)
next
  have abc: "has_dot ''a.b.c''" and ab: "has_dot ''a.b''" by (simp_all add: has_dot_def)
  have nb: "\<not> has_dot ''b''" and nc: "\<not> has_dot ''c''" by (simp_all add: has_dot_def)
  have k: "key_head ''a.b.c'' = ''a''" "key_rest ''a.b.c'' = ''b.c''"
     "key_head ''b.c'' = ''b''" "key_rest ''b.c'' = ''c''"
     "key_head ''a.b'' = ''a''" "key_rest ''a.b'' = ''b''"
    by (simp_all add: key_head_def key_rest_def)
  have bc: "has_dot ''b.c''" by (simp add: has_dot_def)
  have s: "set_key (VMap []) ''a.b.c'' v True = Inr (VMap [(''a'', VMap [(''b'', VMap [(''c'', v)])])])"
    by (simp add: set_key_def abc bc nc k recursive_set_dot recursive_set_nodot)
  have g1: "get (VMap [(''a'', VMap [(''b'', VMap [(''c'', v)])])]) ''a.b.c'' d True = Inr v"
    by (simp add: get_def abc bc nc k recursive_get_dot recursive_get_nodot)
  have g2: "get (VMap [(''a'', VMap [(''b'', VMap [(''c'', v)])])]) ''a.b'' d True
      = Inr (VMap [(''c'', v)])"
    by (simp add: get_def ab nb k recursive_get_dot recursive_get_nodot)
  show "\<exists>doc. set_key (VMap []) ''a.b.c'' v True = Inr doc \<and>
      get doc ''a.b.c'' d True = Inr v \<and> (\<exists>m. get doc ''a.b'' d True = Inr (VMap m))"
    using s g1 g2 by simp
next
  assume a: "has_dot key \<and> path_clear data key"
  then show "\<exists>r. get data key d True = Inr r"
    using get_clear[of data key d] by (simp add: get_def)
next
  assume a: "has_dot key \<and> path_clear data key"
  then obtain m' where m': "data = VMap m'" using path_clear_is_map by blast
  from a m' set_materializes[of key m' v] obtain doc c where
    dc: "recursive_set data key v = Inr doc" "dict_get doc (key_head key) VNull = Inr (VMap c)"
    by blast
  moreover from a set_clear[of data key v d] dc(1) have "recursive_get doc key d = Inr v"
    by auto
  ultimately show "\<exists>doc c. set_key data key v True = Inr doc \<and> get doc key d True = Inr v \<and>
         dict_get doc (key_head key) VNull = Inr (VMap c)"
    using a by (simp add: set_key_def get_def)
next
  assume a: "has_dot key \<and> path_clear data key"
  then show "\<exists>doc. delete data key True = Inr doc"
    using del_clear[of data key] by (simp add: delete_def)
next
  assume a: "has_dot key \<and> map_of m (key_head key) = None"
  then show "get (VMap m) key d True = Inr d"
    by (simp add: get_def recursive_get_dot recursive_get_empty)
next
  assume a: "has_dot key \<and> map_of m (key_head key) = None"
  then show "delete (VMap m) key True = Inr (VMap m)"
    by (simp add: delete_def recursive_del_dot)
qed

theorem dotted_access_absent_segments_witness:
  "has_dot ''x.y'' \<and> path_clear (VMap [(''z'', VInt 1)]) ''x.y'' \<and>
   map_of [(''z'', VInt 1)] (key_head ''x.y'') = None \<and>
   get (VMap [(''z'', VInt 1)]) ''x.y'' (VInt 0) True = Inr (VInt 0) \<and>
   (\<exists>doc c. set_key (VMap [(''z'', VInt 1)]) ''x.y'' (VInt 5) True = Inr doc \<and>
       get doc ''x.y'' (VInt 0) True = Inr (VInt 5) \<and>
       dict_get doc (key_head ''x.y'') VNull = Inr (VMap c)) \<and>
   delete (VMap [(''z'', VInt 1)]) ''x.y'' True = Inr (VMap [(''z'', VInt 1)])"
proof -
  have h: "has_dot ''x.y''" by (simp add: has_dot_def)
  have k: "key_head ''x.y'' = ''x''" by (simp add: key_head_def)
  have n: "map_of [(''z'', VInt 1)] (key_head ''x.y'') = None" by (simp add: k)
  have p: "path_clear (VMap [(''z'', VInt 1)]) ''x.y''" by (simp add: path_clear_VMap h k)
  show ?thesis
    using dotted_access_absent_segments
      [of "VInt 0" "VInt 5" "''x.y''" "VMap [(''z'', VInt 1)]" "[(''z'', VInt 1)]"] h n p
    by simp
qed

section \<open>Permissions\<close>





lemmas path_eval =
  getitem_def get_def contains_def setitem_def set_key_def delitem_def delete_def
  has_dot_def key_head_def key_rest_def and_then_def
  recursive_get.simps recursive_set.simps recursive_del.simps


text \<open>
  Claim C10. When the test \<^verbatim>\<open>mxid in permissions\<close> is false and the identity contains
  no colon, \<^verbatim>\<open>get_permissions\<close> raises the \<^verbatim>\<open>ValueError\<close> of \<^verbatim>\<open>mxid.index(":")\<close>;
  the entry under \<^verbatim>\<open>*\<close> is not consulted.
\<close>

theorem get_permissions_without_colon:
  assumes "getitem data ''bridge.permissions'' = Inr pm"
    and "py_in who (py_or pm (VMap [])) = Inr False"
    and "CHR '':'' \<notin> set who"
  shows "get_permissions data who = Inl (ValueError ''substring not found'')"
  using assms by (simp add: get_permissions_def and_then_def homeserver_of_def)

theorem get_permissions_without_colon_witness:
  "getitem (VMap [(''bridge'', VMap [(''permissions'', VMap [(''*'', VStr ''user'')])])])
      ''bridge.permissions'' = Inr (VMap [(''*'', VStr ''user'')]) \<and>
   py_in ''alice'' (py_or (VMap [(''*'', VStr ''user'')]) (VMap [])) = Inr False \<and>
   CHR '':'' \<notin> set ''alice'' \<and>
   get_permissions (VMap [(''bridge'', VMap [(''permissions'', VMap [(''*'', VStr ''user'')])])])
      ''alice'' = Inl (ValueError ''substring not found'')"
proof -
  let ?d = "VMap [(''bridge'', VMap [(''permissions'', VMap [(''*'', VStr ''user'')])])]"
  have g: "getitem ?d ''bridge.permissions'' = Inr (VMap [(''*'', VStr ''user'')])"
    by (simp add: path_eval)
  have i: "py_in ''alice'' (py_or (VMap [(''*'', VStr ''user'')]) (VMap [])) = Inr False"
    by (simp add: py_or_def)
  have c: "CHR '':'' \<notin> set ''alice''" by simp
  show ?thesis using get_permissions_without_colon[OF g i c] g i c by simp
qed

section \<open>Migration without a base template\<close>

text \<open>
  Claim C9. When opening the base template fails, \<^verbatim>\<open>load_base\<close> returns \<^verbatim>\<open>None\<close> and
  \<^verbatim>\<open>update\<close> returns at once: the configuration, its working document and its
  registration included, is as before, and no file is written.
\<close>

theorem update_without_base:
  "load_base Unavailable = Inr None \<and>
   update render new_token Unavailable cfg = Inr (Some (cfg, []))"
  by (simp add: update_def and_then_def)

section \<open>Leaving a room\<close>

text \<open>
  Claim C8. \<^verbatim>\<open>leave_room\<close> first records in the state store that the identity has
  left and then calls the transport: the two effects are the last two of the trace, in
  this order, the transport answers a history that already holds the update of the
  store, and the store says "not joined" afterwards whatever the transport answers,
  a failure included.
\<close>

theorem leave_room_updates_store_first:
  "trace (snd (leave_room tr room_id s)) =
     trace s @ [StoreLeft room_id (mxid s), Request Client ''leave_room'' [VStr room_id]] \<and>
   fst (leave_room tr room_id s) =
     tr (trace s @ [StoreLeft room_id (mxid s)]) Client ''leave_room'' [VStr room_id] \<and>
   \<not> is_joined (state_store (snd (leave_room tr room_id s))) room_id (mxid s) \<and>
   state_store (snd (leave_room tr room_id s)) = left (state_store s) room_id (mxid s)"
  by (simp add: leave_room_def call_def request_def store_left_def emit_def is_joined_def
        left_def)

section \<open>Registration and joining\<close>

lemma ensure_registered_registered:
  "registered s \<Longrightarrow> ensure_registered tr s = (Inr (), s)"
  by (simp add: ensure_registered_def)

lemma ensure_registered_returned:
  "fst (ensure_registered tr s) = Inr () \<Longrightarrow> registered (snd (ensure_registered tr s))"
  by (auto simp: ensure_registered_def request_def emit_def
        split: sum.splits option.splits if_splits)

lemma ensure_registered_store [simp]:
  "state_store (snd (ensure_registered tr s)) = state_store s"
  "mxid (snd (ensure_registered tr s)) = mxid s"
  "bot (snd (ensure_registered tr s)) = bot s"
  "log (snd (ensure_registered tr s)) = log s"
  by (simp_all add: ensure_registered_def request_def emit_def split: sum.splits option.splits)

lemma ensure_registered_no_join:
  "filter (is_request ''join_room'') (trace (snd (ensure_registered tr s)))
     = filter (is_request ''join_room'') (trace s)"
  by (simp add: ensure_registered_def request_def emit_def is_request_def
        split: sum.splits option.splits)

lemma ensure_joined_cached:
  "is_joined (state_store s) room_id (mxid s) \<Longrightarrow> ensure_joined tr room_id False s = (Inr (), s)"
  by (simp add: ensure_joined_def)

text \<open>
  The two ways in which \<^verbatim>\<open>_ensure_joined\<close> returns when the cache does not let it
  return at once: the direct join succeeds, or it is refused, the bot invites and the
  second join succeeds.
\<close>

lemma ensure_joined_returned:
  assumes "ignore_cache \<or> \<not> is_joined (state_store s) room_id (mxid s)"
    and "fst (ensure_joined tr room_id ignore_cache s) = Inr ()"
  shows "fst (ensure_registered tr s) = Inr () \<and>
         (case tr (trace (snd (ensure_registered tr s))) Client ''join_room'' [VStr room_id] of
            Inr v \<Rightarrow>
              snd (ensure_joined tr room_id ignore_cache s) =
                store_joined room_id
                  (emit (Request Client ''join_room'' [VStr room_id])
                     (snd (ensure_registered tr s)))
          | Inl x \<Rightarrow>
              bot s \<and>
              snd (ensure_joined tr room_id ignore_cache s) =
                store_joined room_id
                  (emit (Request Client ''join_room'' [VStr room_id])
                     (emit (Request Bot ''invite_user'' [VStr room_id, VStr (mxid s)])
                        (emit (Request Client ''join_room'' [VStr room_id])
                           (snd (ensure_registered tr s))))))"
proof -
  obtain r s1 where er: "ensure_registered tr s = (r, s1)"
    by (cases "ensure_registered tr s")
  have m1: "mxid s1 = mxid s" "bot s1 = bot s"
    using ensure_registered_store[of tr s] er by simp_all
  from assms er have r: "r = Inr ()"
    by (cases r) (auto simp: ensure_joined_def then_do_def)
  show ?thesis
    using assms er r m1
    by (auto simp: ensure_joined_def then_do_def request_def emit_def
          split: sum.splits option.splits if_splits)
qed

text \<open>
  Claim C7, amended. From a cache that does not say "joined", when the first
  \<^verbatim>\<open>_ensure_joined\<close> returns without an exception, it has recorded the identity as
  joined, and the second call returns with the handle unchanged, so it adds no request
  and no other effect. The first call has added one \<^verbatim>\<open>join_room\<close> request to the
  trace when its direct join succeeded, and two when the direct join was refused and the
  call succeeded through the bot's invite and the second join.
\<close>

theorem ensure_joined_twice:
  assumes "\<not> is_joined (state_store s) room_id (mxid s)"
    and "fst (ensure_joined tr room_id False s) = Inr ()"
  shows "is_joined (state_store (snd (ensure_joined tr room_id False s))) room_id (mxid s) \<and>
         ensure_joined tr room_id False (snd (ensure_joined tr room_id False s))
           = (Inr (), snd (ensure_joined tr room_id False s)) \<and>
         length (filter (is_request ''join_room'') (trace (snd (ensure_joined tr room_id False s))))
           = length (filter (is_request ''join_room'') (trace s)) +
             (case tr (trace (snd (ensure_registered tr s))) Client ''join_room'' [VStr room_id] of
                Inr v \<Rightarrow> 1
              | Inl x \<Rightarrow> 2)"
proof -
  let ?s1 = "snd (ensure_registered tr s)"
  let ?s2 = "snd (ensure_joined tr room_id False s)"
  note r = ensure_joined_returned[of False s room_id tr] 
  have j1: "filter (is_request ''join_room'') (trace ?s1) = filter (is_request ''join_room'') (trace s)"
    by (rule ensure_registered_no_join)
  have j2: "is_joined (state_store ?s2) room_id (mxid ?s2) \<and> mxid ?s2 = mxid s \<and>
      length (filter (is_request ''join_room'') (trace ?s2))
        = length (filter (is_request ''join_room'') (trace s)) +
          (case tr (trace ?s1) Client ''join_room'' [VStr room_id] of Inr v \<Rightarrow> 1 | Inl x \<Rightarrow> 2)"
  proof (cases "tr (trace ?s1) Client ''join_room'' [VStr room_id]")
    case (Inr v)
    with r assms have e: "?s2 = store_joined room_id
        (emit (Request Client ''join_room'' [VStr room_id]) ?s1)" by simp
    show ?thesis
      unfolding e using j1 Inr
      by (simp add: store_joined_def emit_def is_joined_def joined_def is_request_def)
  next
    case (Inl x)
    with r assms have e: "?s2 = store_joined room_id
        (emit (Request Client ''join_room'' [VStr room_id])
           (emit (Request Bot ''invite_user'' [VStr room_id, VStr (mxid s)])
              (emit (Request Client ''join_room'' [VStr room_id]) ?s1)))" by simp
    show ?thesis
      unfolding e using j1 Inl
      by (simp add: store_joined_def emit_def is_joined_def joined_def is_request_def)
  qed
  then have c2: "ensure_joined tr room_id False ?s2 = (Inr (), ?s2)"
    using ensure_joined_cached by blast
  from j2 have a2: "is_joined (state_store ?s2) room_id (mxid s)" by metis
  from a2 c2 j2 show ?thesis by blast
qed

theorem ensure_joined_twice_witness:
  "\<not> is_joined (state_store (fresh_handle True)) ''!room:example.org'' (mxid (fresh_handle True)) \<and>
   fst (ensure_joined always_ok ''!room:example.org'' False (fresh_handle True)) = Inr () \<and>
   is_joined (state_store (snd (ensure_joined always_ok ''!room:example.org'' False
      (fresh_handle True)))) ''!room:example.org'' (mxid (fresh_handle True)) \<and>
   length (filter (is_request ''join_room'')
      (trace (snd (ensure_joined always_ok ''!room:example.org'' False (fresh_handle True))))) = 1 \<and>
   ensure_joined always_ok ''!room:example.org'' False
      (snd (ensure_joined always_ok ''!room:example.org'' False (fresh_handle True)))
    = (Inr (), snd (ensure_joined always_ok ''!room:example.org'' False (fresh_handle True))) \<and>
   fst (ensure_joined join_needs_invite ''!room:example.org'' False (fresh_handle True)) = Inr () \<and>
   length (filter (is_request ''join_room'')
      (trace (snd (ensure_joined join_needs_invite ''!room:example.org'' False
         (fresh_handle True))))) = 2 \<and>
   ensure_joined join_needs_invite ''!room:example.org'' False
      (snd (ensure_joined join_needs_invite ''!room:example.org'' False (fresh_handle True)))
    = (Inr (), snd (ensure_joined join_needs_invite ''!room:example.org'' False
         (fresh_handle True)))"
proof -
  have a: "\<not> is_joined (state_store (fresh_handle True)) ''!room:example.org''
      (mxid (fresh_handle True))"
    by (simp add: fresh_handle_def empty_store_def is_joined_def)
  have t: "trace (fresh_handle True) = []" by (simp add: fresh_handle_def)
  have b: "fst (ensure_joined always_ok ''!room:example.org'' False (fresh_handle True)) = Inr ()"
    by (simp add: ensure_joined_def ensure_registered_def then_do_def request_def emit_def
          always_ok_def fresh_handle_def empty_store_def is_joined_def)
  have c: "fst (ensure_joined join_needs_invite ''!room:example.org'' False (fresh_handle True))
      = Inr ()"
    by (simp add: ensure_joined_def ensure_registered_def then_do_def request_def emit_def
          join_needs_invite_def fresh_handle_def empty_store_def is_joined_def is_request_def
          errcode_response_def matrix_error_code_def)
  have d1: "always_ok (trace (snd (ensure_registered always_ok (fresh_handle True)))) Client
      ''join_room'' [VStr ''!room:example.org''] = Inr VNull"
    by (simp add: always_ok_def)
  have d2: "join_needs_invite (trace (snd (ensure_registered join_needs_invite (fresh_handle True))))
      Client ''join_room'' [VStr ''!room:example.org'']
      = Inl (MatrixRequestError (errcode_response ''M_FORBIDDEN''))"
    by (simp add: ensure_registered_def request_def emit_def join_needs_invite_def
          fresh_handle_def is_request_def)
  from ensure_joined_twice[OF a b] ensure_joined_twice[OF a c] a b c t d1 d2
  show ?thesis by simp
qed

theorem ensure_joined_twice_counterexample:
  "\<not> is_joined (state_store (fresh_handle True)) ''!room:example.org'' (mxid (fresh_handle True)) \<and>
   trace (fresh_handle True) = [] \<and>
   fst (ensure_joined join_needs_invite ''!room:example.org'' False (fresh_handle True)) = Inr () \<and>
   trace (snd (ensure_joined join_needs_invite ''!room:example.org'' False (fresh_handle True)))
     = [Request Client ''register'' [VMap [(''username'', VStr ''puppet'')]],
        Request Client ''join_room'' [VStr ''!room:example.org''],
        Request Bot ''invite_user'' [VStr ''!room:example.org'', VStr ''@puppet:example.org''],
        Request Client ''join_room'' [VStr ''!room:example.org''],
        StoreJoined ''!room:example.org'' ''@puppet:example.org''] \<and>
   length (filter (is_request ''join_room'')
      (trace (snd (ensure_joined join_needs_invite ''!room:example.org'' False
         (fresh_handle True))))) = 2"
  by (simp add: ensure_joined_def ensure_registered_def then_do_def request_def emit_def
        join_needs_invite_def fresh_handle_def empty_store_def is_joined_def is_request_def
        errcode_response_def matrix_error_code_def store_joined_def joined_def)

lemma registered_emit [simp]: "registered (emit e s) = registered s"
  by (simp add: emit_def)

lemma registered_request [simp]: "registered (snd (request tr a m args s)) = registered s"
  by (simp add: request_def)

lemma registered_call [simp]: "registered (snd (call tr a m args s)) = registered s"
  by (simp add: call_def)

lemma registered_store [simp]:
  "registered (store_joined r s) = registered s"
  "registered (store_left r s) = registered s"
  "registered (store_invited r u s) = registered s"
  "registered (store_set_power_levels r l s) = registered s"
  by (simp_all add: store_joined_def store_left_def store_invited_def store_set_power_levels_def)

lemma kept_then_do:
  assumes "registered (snd r)"
    and "\<And>x s1. registered s1 \<Longrightarrow> registered (snd (f x s1))"
  shows "registered (snd (then_do r f))"
  using assms by (cases r; cases "fst r") (auto simp: then_do_def)

lemma kept_ensure_registered:
  "registered s \<Longrightarrow> registered (snd (ensure_registered tr s))"
  by (simp add: ensure_registered_registered)

lemma kept_ensure_joined:
  "registered s \<Longrightarrow> registered (snd (ensure_joined tr r c s))"
  unfolding ensure_joined_def
  by (auto intro!: kept_then_do kept_ensure_registered
        simp: request_def emit_def store_joined_def
        split: sum.splits prod.splits option.splits)

lemma kept_get_power_levels:
  "registered s \<Longrightarrow> registered (snd (get_power_levels tr r s))"
  unfolding get_power_levels_def
  by (auto intro!: kept_then_do kept_ensure_joined)

lemma kept_ensure_has_power_level_for:
  "registered s \<Longrightarrow> registered (snd (ensure_has_power_level_for tr r t s))"
  unfolding ensure_has_power_level_for_def
  by (auto intro!: kept_then_do kept_get_power_levels)

lemma kept_send_event:
  "registered s \<Longrightarrow> registered (snd (send_event tr r t b x s))"
  unfolding send_event_def
  by (auto intro!: kept_then_do kept_ensure_joined kept_ensure_has_power_level_for)

lemma kept_send_state_event:
  "registered s \<Longrightarrow> registered (snd (send_state_event tr r t b k s))"
  unfolding send_state_event_def
  by (auto intro!: kept_then_do kept_ensure_joined kept_ensure_has_power_level_for)

lemma kept_send_text:
  "registered s \<Longrightarrow> registered (snd (send_text tr r t h m s))"
  by (simp add: send_text_def send_message_def kept_send_event)

lemma kept_leave_room:
  "registered s \<Longrightarrow> registered (snd (leave_room tr r s))"
  by (simp add: leave_room_def)

lemma kept_after: "registered s \<Longrightarrow> registered (after tr op s)"
proof (cases op)
  case (Invite r u)
  assume "registered s"
  then show ?thesis unfolding Invite after.simps invite_def
    by (auto intro!: kept_then_do kept_ensure_joined
          simp: request_def emit_def store_invited_def
          split: sum.splits prod.splits option.splits)
next
  case (ErrorAndLeave r t h)
  assume "registered s"
  then show ?thesis unfolding ErrorAndLeave after.simps error_and_leave_def send_notice_def
    by (auto intro!: kept_then_do kept_ensure_joined kept_send_text kept_leave_room)
next
  case (SetPowerLevels r c)
  assume "registered s"
  then show ?thesis unfolding SetPowerLevels after.simps set_power_levels_def
    by (auto intro!: kept_then_do kept_send_state_event)
next
  case (GetRoomMembers r a)
  assume "registered s"
  then show ?thesis unfolding GetRoomMembers after.simps get_room_members_def
      get_room_memberships_def
    by (auto intro!: kept_then_do)
next
  case (SetRoomName r n)
  assume "registered s"
  then show ?thesis unfolding SetRoomName after.simps set_room_name_def
    by (auto intro!: kept_then_do kept_ensure_joined kept_ensure_has_power_level_for)
qed (auto simp: set_display_name_def set_presence_def set_avatar_def upload_file_def
       download_file_def create_room_def set_room_avatar_def add_room_alias_def
       remove_room_alias_def set_typing_def send_notice_def send_emote_def send_image_def
       send_file_def send_message_def kick_def join_room_def get_room_memberships_def
       get_room_state_def user_handle_def
     intro!: kept_then_do kept_ensure_joined kept_ensure_has_power_level_for kept_send_event
       kept_send_state_event kept_send_text kept_leave_room kept_get_power_levels
       kept_ensure_registered)

lemma kept_after_all: "registered s \<Longrightarrow> registered (after_all tr ops s)"
  by (induction ops arbitrary: s) (simp_all add: kept_after)

text \<open>
  Claim C6, amended. A handle whose flag is set is left as it is. Otherwise
  \<^verbatim>\<open>_ensure_registered\<close> asks the transport to register the localpart. When the
  call returns, or fails with a \<^verbatim>\<open>MatrixRequestError\<close> whose code is
  \<^verbatim>\<open>M_USER_IN_USE\<close> (the \<^verbatim>\<open>errcode\<close> of a JSON body, or the body itself), the
  method returns with the flag set and nothing logged; when the call fails with a
  \<^verbatim>\<open>MatrixRequestError\<close> of another code and the handle has a logger, the failure is
  logged and swallowed, and the flag is set. An exception of the transport that is not
  a \<^verbatim>\<open>MatrixRequestError\<close> is not caught: it leaves the method, and the flag stays
  unset. After any sequence of calls of the handle's methods a flag that was set is
  still set.
\<close>

theorem ensure_registered_outcomes:
  "(registered s \<longrightarrow> ensure_registered tr s = (Inr (), s)) \<and>
   (\<not> registered s \<and>
    tr (trace s) Client ''register'' [VMap [(''username'', VStr (localpart s))]] = Inr v \<longrightarrow>
      ensure_registered tr s =
        (Inr (),
         (emit (Request Client ''register'' [VMap [(''username'', VStr (localpart s))]]) s)
           \<lparr>registered := True\<rparr>)) \<and>
   (json_errcode e = Some ''M_USER_IN_USE'' \<or>
    json_errcode e = None \<and> content e = ''M_USER_IN_USE'' \<longrightarrow>
      matrix_error_code e = ''M_USER_IN_USE'') \<and>
   (\<not> registered s \<and>
    tr (trace s) Client ''register'' [VMap [(''username'', VStr (localpart s))]]
      = Inl (MatrixRequestError e) \<and>
    matrix_error_code e = ''M_USER_IN_USE'' \<longrightarrow>
      ensure_registered tr s =
        (Inr (),
         (emit (Request Client ''register'' [VMap [(''username'', VStr (localpart s))]]) s)
           \<lparr>registered := True\<rparr>)) \<and>
   (\<not> registered s \<and> log s \<and>
    tr (trace s) Client ''register'' [VMap [(''username'', VStr (localpart s))]]
      = Inl (MatrixRequestError e) \<and>
    matrix_error_code e \<noteq> ''M_USER_IN_USE'' \<longrightarrow>
      ensure_registered tr s =
        (Inr (),
         (emit (Log (''Failed to register '' @ mxid s @ ''!''))
            (emit (Request Client ''register'' [VMap [(''username'', VStr (localpart s))]]) s))
           \<lparr>registered := True\<rparr>)) \<and>
   (\<not> registered s \<and>
    tr (trace s) Client ''register'' [VMap [(''username'', VStr (localpart s))]] = Inl x \<and>
    caught x = None \<longrightarrow>
      ensure_registered tr s =
        (Inl x, emit (Request Client ''register'' [VMap [(''username'', VStr (localpart s))]]) s)
      \<and> \<not> registered (snd (ensure_registered tr s))) \<and>
   (registered s \<longrightarrow> registered (after_all tr ops s))"
proof (intro conjI impI)
  show "registered (after_all tr ops s)" if "registered s" using that by (rule kept_after_all)
  show "matrix_error_code e = ''M_USER_IN_USE''"
    if "json_errcode e = Some ''M_USER_IN_USE'' \<or>
        json_errcode e = None \<and> content e = ''M_USER_IN_USE''"
    using that by (auto simp: matrix_error_code_def)
qed (auto simp: ensure_registered_def request_def emit_def)

theorem ensure_registered_outcomes_witness:
  "\<not> registered (fresh_handle False) \<and> log (fresh_handle False) \<and>
   ensure_registered always_ok (fresh_handle False) =
     (Inr (),
      (emit (Request Client ''register'' [VMap [(''username'', VStr ''puppet'')]])
         (fresh_handle False))\<lparr>registered := True\<rparr>) \<and>
   json_errcode (errcode_response ''M_USER_IN_USE'') = Some ''M_USER_IN_USE'' \<and>
   matrix_error_code (errcode_response ''M_USER_IN_USE'') = ''M_USER_IN_USE'' \<and>
   ensure_registered (register_raises (MatrixRequestError (errcode_response ''M_USER_IN_USE'')))
       (fresh_handle False) =
     (Inr (),
      (emit (Request Client ''register'' [VMap [(''username'', VStr ''puppet'')]])
         (fresh_handle False))\<lparr>registered := True\<rparr>) \<and>
   matrix_error_code (errcode_response ''M_UNKNOWN'') \<noteq> ''M_USER_IN_USE'' \<and>
   ensure_registered (register_raises (MatrixRequestError (errcode_response ''M_UNKNOWN'')))
       (fresh_handle False) =
     (Inr (),
      (emit (Log ''Failed to register @puppet:example.org!'')
         (emit (Request Client ''register'' [VMap [(''username'', VStr ''puppet'')]])
            (fresh_handle False)))\<lparr>registered := True\<rparr>) \<and>
   caught (OtherException ''MatrixHttpLibError'') = None \<and>
   ensure_registered (register_raises (OtherException ''MatrixHttpLibError'')) (fresh_handle False) =
     (Inl (OtherException ''MatrixHttpLibError''),
      emit (Request Client ''register'' [VMap [(''username'', VStr ''puppet'')]])
        (fresh_handle False)) \<and>
   registered ((fresh_handle False)\<lparr>registered := True\<rparr>) \<and>
   ensure_registered always_ok ((fresh_handle False)\<lparr>registered := True\<rparr>)
     = (Inr (), (fresh_handle False)\<lparr>registered := True\<rparr>) \<and>
   registered (after_all (register_raises (OtherException ''MatrixHttpLibError''))
      [LeaveRoom ''!room:example.org'', JoinRoom ''!room:example.org'', EnsureRegistered]
      ((fresh_handle False)\<lparr>registered := True\<rparr>))"
proof -
  let ?h = "fresh_handle False"
  let ?args = "[VMap [(''username'', VStr (localpart ?h))]]"
  have n: "\<not> registered ?h" and l: "log ?h" and lp: "localpart ?h = ''puppet''"
    and mx: "mxid ?h = ''@puppet:example.org''"
    by (simp_all add: fresh_handle_def)
  have je: "json_errcode (errcode_response ''M_USER_IN_USE'') = Some ''M_USER_IN_USE''"
    by (simp add: errcode_response_def)
  have mu: "matrix_error_code (errcode_response ''M_UNKNOWN'') \<noteq> ''M_USER_IN_USE''"
    by (simp add: errcode_response_def matrix_error_code_def)
  have co: "caught (OtherException ''MatrixHttpLibError'') = None" by simp
  have t1: "always_ok (trace ?h) Client ''register'' ?args = Inr VNull"
    by (simp add: always_ok_def)
  have t2: "\<And>x. register_raises x (trace ?h) Client ''register'' ?args = Inl x"
    by (simp add: register_raises_def)
  note A = ensure_registered_outcomes[where s = ?h and tr = always_ok and v = VNull]
  note B = ensure_registered_outcomes[where s = ?h
      and tr = "register_raises (MatrixRequestError (errcode_response ''M_USER_IN_USE''))"
      and e = "errcode_response ''M_USER_IN_USE''"]
  note C = ensure_registered_outcomes[where s = ?h
      and tr = "register_raises (MatrixRequestError (errcode_response ''M_UNKNOWN''))"
      and e = "errcode_response ''M_UNKNOWN''"]
  note D = ensure_registered_outcomes[where s = ?h
      and tr = "register_raises (OtherException ''MatrixHttpLibError'')"
      and x = "OtherException ''MatrixHttpLibError''"]
  note E = ensure_registered_outcomes[where s = "?h\<lparr>registered := True\<rparr>" and tr = always_ok]
  note F = ensure_registered_outcomes[where s = "?h\<lparr>registered := True\<rparr>"
      and tr = "register_raises (OtherException ''MatrixHttpLibError'')"
      and ops = "[LeaveRoom ''!room:example.org'', JoinRoom ''!room:example.org'',
                  EnsureRegistered]"]
  have r1: "ensure_registered always_ok ?h =
      (Inr (), (emit (Request Client ''register'' ?args) ?h)\<lparr>registered := True\<rparr>)"
    using A n t1 by blast
  have mi: "matrix_error_code (errcode_response ''M_USER_IN_USE'') = ''M_USER_IN_USE''"
    using B je by blast
  have r2: "ensure_registered (register_raises (MatrixRequestError
        (errcode_response ''M_USER_IN_USE''))) ?h =
      (Inr (), (emit (Request Client ''register'' ?args) ?h)\<lparr>registered := True\<rparr>)"
    using B n t2 mi by blast
  have r3: "ensure_registered (register_raises (MatrixRequestError
        (errcode_response ''M_UNKNOWN''))) ?h =
      (Inr (), (emit (Log (''Failed to register '' @ mxid ?h @ ''!''))
         (emit (Request Client ''register'' ?args) ?h))\<lparr>registered := True\<rparr>)"
    using C n l t2 mu by blast
  have r4: "ensure_registered (register_raises (OtherException ''MatrixHttpLibError'')) ?h =
      (Inl (OtherException ''MatrixHttpLibError''), emit (Request Client ''register'' ?args) ?h)"
    using D n t2 co by blast
  have g: "registered (?h\<lparr>registered := True\<rparr>)" by simp
  have r5: "ensure_registered always_ok (?h\<lparr>registered := True\<rparr>)
      = (Inr (), ?h\<lparr>registered := True\<rparr>)"
    using E g by blast
  have r6: "registered (after_all (register_raises (OtherException ''MatrixHttpLibError''))
      [LeaveRoom ''!room:example.org'', JoinRoom ''!room:example.org'', EnsureRegistered]
      (?h\<lparr>registered := True\<rparr>))"
    using F g by blast
  show ?thesis
    using n l je mi mu co r1 r2 r3 r4 g r5 r6 unfolding lp mx by simp
qed

theorem ensure_registered_outcomes_counterexample:
  "\<not> registered (fresh_handle False) \<and>
   fst (ensure_registered (register_raises (OtherException ''MatrixHttpLibError''))
          (fresh_handle False)) = Inl (OtherException ''MatrixHttpLibError'') \<and>
   \<not> registered (snd (ensure_registered (register_raises (OtherException ''MatrixHttpLibError''))
          (fresh_handle False))) \<and>
   fst (ensure_registered (register_raises (MatrixRequestError (errcode_response ''M_UNKNOWN'')))
          ((fresh_handle False)\<lparr>log := False\<rparr>)) = Inl AttributeError \<and>
   \<not> registered (snd (ensure_registered
          (register_raises (MatrixRequestError (errcode_response ''M_UNKNOWN'')))
          ((fresh_handle False)\<lparr>log := False\<rparr>)))"
  by (simp add: ensure_registered_def request_def emit_def register_raises_def fresh_handle_def
        errcode_response_def matrix_error_code_def)

section \<open>Joining after a refused join\<close>

text \<open>
  After a join refused with \<^verbatim>\<open>M_FORBIDDEN\<close>, a handle with a bot issues one invite
  by the bot and, when the invite succeeds, one more join; a failure of either raises
  \<^verbatim>\<open>IntentError\<close>.
\<close>

lemma ensure_joined_forbidden_with_bot:
  assumes "ignore_cache \<or> \<not> is_joined (state_store s) room_id (mxid s)"
    and "bot s"
    and "fst (ensure_registered tr s) = Inr ()"
    and "tr (trace (snd (ensure_registered tr s))) Client ''join_room'' [VStr room_id]
           = Inl (MatrixRequestError e)"
    and "matrix_error_code e = ''M_FORBIDDEN''"
  shows "ensure_joined tr room_id ignore_cache s =
     (let s2 = emit (Request Client ''join_room'' [VStr room_id]) (snd (ensure_registered tr s));
          s3 = emit (Request Bot ''invite_user'' [VStr room_id, VStr (mxid s)]) s2;
          s4 = emit (Request Client ''join_room'' [VStr room_id]) s3
      in case tr (trace s2) Bot ''invite_user'' [VStr room_id, VStr (mxid s)] of
           Inl x2 \<Rightarrow>
             (case caught x2 of
                None \<Rightarrow> (Inl x2, s3)
              | Some e2 \<Rightarrow> (Inl (join_failed room_id s e2), s3))
         | Inr v \<Rightarrow>
             (case tr (trace s3) Client ''join_room'' [VStr room_id] of
                Inl x2 \<Rightarrow>
                  (case caught x2 of
                     None \<Rightarrow> (Inl x2, s4)
                   | Some e2 \<Rightarrow> (Inl (join_failed room_id s e2), s4))
              | Inr v \<Rightarrow> (Inr (), store_joined room_id s4)))"
proof -
  obtain s1 where s1: "ensure_registered tr s = (Inr (), s1)"
    using assms(3) by (cases "ensure_registered tr s") auto
  have m: "mxid s1 = mxid s" "bot s1 = bot s"
    using ensure_registered_store[of tr s] s1 by simp_all
  show ?thesis
    using assms s1 m
    by (auto simp: ensure_joined_def then_do_def request_def emit_def join_failed_def Let_def
          split: sum.splits option.splits)
qed

text \<open>
  Claim C2. The guard of the retry is \<^verbatim>\<open>code != "M_FORBIDDEN" and not self.bot\<close>. With
  a bot, a join that fails with another code than \<^verbatim>\<open>M_FORBIDDEN\<close> is followed by the
  bot's invite and a second join all the same; without a bot, a join that fails with
  \<^verbatim>\<open>M_FORBIDDEN\<close> reaches \<^verbatim>\<open>self.bot.invite_user\<close> on \<^verbatim>\<open>None\<close>.
\<close>

theorem ensure_joined_retry_guard:
  "matrix_error_code (RequestError ''M_UNKNOWN'' None) \<noteq> ''M_FORBIDDEN'' \<and>
   bot (fresh_handle True) \<and>
   fst (ensure_joined (join_fails_with ''M_UNKNOWN'') ''!room:example.org'' False (fresh_handle True))
     = Inl (IntentError ''Failed to join room !room:example.org as @puppet:example.org''
              (RequestError ''M_UNKNOWN'' None)) \<and>
   trace (snd (ensure_joined (join_fails_with ''M_UNKNOWN'') ''!room:example.org'' False
                 (fresh_handle True)))
     = [Request Client ''register'' [VMap [(''username'', VStr ''puppet'')]],
        Request Client ''join_room'' [VStr ''!room:example.org''],
        Request Bot ''invite_user'' [VStr ''!room:example.org'', VStr ''@puppet:example.org''],
        Request Client ''join_room'' [VStr ''!room:example.org'']] \<and>
   \<not> bot (fresh_handle False) \<and>
   matrix_error_code (RequestError ''M_FORBIDDEN'' None) = ''M_FORBIDDEN'' \<and>
   fst (ensure_joined (join_fails_with ''M_FORBIDDEN'') ''!room:example.org'' False
          (fresh_handle False))
     = Inl AttributeError"
  by (simp add: ensure_joined_def ensure_registered_def then_do_def request_def emit_def
        join_fails_with_def fresh_handle_def empty_store_def is_joined_def matrix_error_code_def
        join_failed_def)

section \<open>Construction of a handle\<close>

lemma init_fresh_handle:
  "init ''@puppet:example.org'' b True ''example.org'' empty_store = Inr (fresh_handle b)"
  by (simp add: init_def fresh_handle_def match_at_def match_with_def dot_def eval_nat_numeral)

lemma backtrack_Some:
  "backtrack n rest = Some g \<Longrightarrow> \<exists>k. 0 < k \<and> k \<le> n \<and> match_with k rest = Some g"
proof (induction n)
  case 0
  then show ?case by simp
next
  case (Suc n)
  show ?case
  proof (cases "match_with (Suc n) rest")
    case None
    with Suc.prems have "backtrack n rest = Some g" by simp
    with Suc.IH obtain k where "0 < k" "k \<le> n" "match_with k rest = Some g" by blast
    then show ?thesis by (intro exI[of _ k]) simp
  next
    case (Some g')
    with Suc.prems have "g' = g" by simp
    with Some show ?thesis by (intro exI[of _ "Suc n"]) simp
  qed
qed

lemma backtrack_finds:
  "0 < k \<Longrightarrow> k \<le> n \<Longrightarrow> match_with k rest \<noteq> None \<Longrightarrow> backtrack n rest \<noteq> None"
proof (induction n)
  case 0
  then show ?case by simp
next
  case (Suc n)
  show ?case
  proof (cases "k = Suc n")
    case True
    with Suc.prems(3) show ?thesis by (auto split: option.splits)
  next
    case False
    with Suc.prems have "k \<le> n" by simp
    with Suc.IH Suc.prems have "backtrack n rest \<noteq> None" by blast
    then show ?thesis by (auto split: option.splits)
  qed
qed

lemma match_with_Some:
  "match_with k rest = Some (l, dm) \<Longrightarrow>
     \<exists>q. rest = take k rest @ CHR '':'' # dm @ q \<and> l = take k rest \<and> dm \<noteq> [] \<and> k < length rest"
proof -
  assume a: "match_with k rest = Some (l, dm)"
  then obtain tail where d: "drop k rest = CHR '':'' # tail"
    and l: "l = take k rest" and dm: "dm = takeWhile dot tail" and ne: "dm \<noteq> []"
    by (auto simp: match_with_def split: list.splits if_splits)
  have "rest = take k rest @ drop k rest" by simp
  also have "\<dots> = take k rest @ CHR '':'' # takeWhile dot tail @ dropWhile dot tail"
    using d by simp
  finally have "rest = take k rest @ CHR '':'' # dm @ dropWhile dot tail" using dm by simp
  moreover have "k < length rest" using d by (cases "k < length rest") auto
  ultimately show ?thesis using l ne by blast
qed

text \<open>What the search accepts: a handle is built only for a string that holds, somewhere, an
  \<^verbatim>\<open>@\<close>, a non-empty first group, a colon and a non-empty second group.\<close>

lemma mxid_search_Some:
  "mxid_search s = Some (l, dm) \<Longrightarrow>
     \<exists>p q. s = p @ CHR ''@'' # l @ CHR '':'' # dm @ q \<and> l \<noteq> [] \<and> dm \<noteq> []"
proof (induction s)
  case Nil
  then show ?case by simp
next
  case (Cons c cs)
  show ?case
  proof (cases "match_at (c # cs)")
    case None
    with Cons.prems have "mxid_search cs = Some (l, dm)" by simp
    with Cons.IH obtain p q where "cs = p @ CHR ''@'' # l @ CHR '':'' # dm @ q" "l \<noteq> []" "dm \<noteq> []"
      by blast
    then show ?thesis by (intro exI[of _ "c # p"] exI[of _ q]) simp
  next
    case (Some g)
    with Cons.prems have g: "g = (l, dm)" by simp
    from Some have c: "c = CHR ''@''"
      and b: "backtrack (length (takeWhile dot cs)) cs = Some g"
      by (auto simp: match_at_def split: if_splits)
    from backtrack_Some[OF b] g obtain k where k: "0 < k" "match_with k cs = Some (l, dm)"
      by blast
    from match_with_Some[OF k(2)] obtain q where
      q: "cs = take k cs @ CHR '':'' # dm @ q" "l = take k cs" "dm \<noteq> []" "k < length cs"
      by blast
    have "l \<noteq> []" using q(2,4) k(1) by auto
    moreover have "c # cs = [] @ CHR ''@'' # l @ CHR '':'' # dm @ q" using c q(1,2) by simp
    ultimately show ?thesis using q(3) by blast
  qed
qed

text \<open>A string of the shape \<^verbatim>\<open>@localpart:domain\<close> without a line feed is accepted,
  and the localpart found is one that the string has.\<close>

lemma init_accepts_shape:
  assumes "spec_mxid_shape s" and "CHR 0x0A \<notin> set s"
  shows "\<exists>h dm. init s b lg d st = Inr h \<and> dm \<noteq> [] \<and> localpart h \<noteq> [] \<and>
           s = CHR ''@'' # localpart h @ CHR '':'' # dm"
proof -
  from assms(1) obtain rest n where s: "s = CHR ''@'' # rest"
    and n: "1 \<le> n" "n < length rest - 1" "rest ! n = CHR '':''"
    by (auto simp: spec_mxid_shape_def list_ex_iff split: list.splits)
  have tw: "\<And>xs. set xs \<subseteq> set rest \<Longrightarrow> takeWhile dot xs = xs"
    using assms(2) s by (auto simp: dot_def takeWhile_eq_all_conv)
  have run: "takeWhile dot rest = rest" by (rule tw) simp
  have dn: "drop n rest = CHR '':'' # drop (Suc n) rest"
    using n by (simp add: Cons_nth_drop_Suc[symmetric])
  have tl: "takeWhile dot (drop (Suc n) rest) = drop (Suc n) rest"
    by (rule tw) (rule set_drop_subset)
  have ne0: "drop (Suc n) rest \<noteq> []" using n by simp
  have "match_with n rest \<noteq> None"
    unfolding match_with_def dn list.case tl using ne0 by simp
  then have "backtrack (length rest) rest \<noteq> None"
    using n by (intro backtrack_finds[of n]) auto
  then obtain l dm where g: "backtrack (length rest) rest = Some (l, dm)" by auto
  from backtrack_Some[OF g] obtain k where k: "0 < k" "match_with k rest = Some (l, dm)"
    by blast
  then obtain tail where d: "drop k rest = CHR '':'' # tail"
    and l: "l = take k rest" and dm: "dm = takeWhile dot tail" and ne: "dm \<noteq> []"
    by (auto simp: match_with_def split: list.splits if_splits)
  have "set tail \<subseteq> set (drop k rest)" using d by auto
  then have "set tail \<subseteq> set rest" using set_drop_subset by fastforce
  then have dmt: "dm = tail" using dm tw by simp
  have kl: "k < length rest" using d by (cases "k < length rest") auto
  have "rest = take k rest @ drop k rest" by simp
  then have rest: "rest = l @ CHR '':'' # dm" using d l dmt by simp
  have "l \<noteq> []" using l kl k(1) by auto
  moreover have "init s b lg d st =
      Inr \<lparr>mxid = s, localpart = l, bot = b, log = lg, domain = d, registered = False,
           state_store = st, trace = []\<rparr>"
  proof -
    have ma: "match_at (CHR ''@'' # rest) = Some (l, dm)"
      unfolding match_at_def list.case run using g by simp
    have "mxid_search s = Some (l, dm)" unfolding s using ma by simp
    then show ?thesis by (simp add: init_def)
  qed
  ultimately show ?thesis using ne rest s by auto
qed

text \<open>
  Claim C1. \<^verbatim>\<open>__init__\<close> searches the identifier for the pattern and does not match
  the whole of it: \<^verbatim>\<open>x@a:b\<close> has not the shape \<^verbatim>\<open>@localpart:domain\<close>, and a handle
  with the localpart \<^verbatim>\<open>a\<close> is built for it. The first group is greedy: for
  \<^verbatim>\<open>@alice:example.org:8448\<close> the localpart is \<^verbatim>\<open>alice:example.org\<close>.
\<close>

theorem init_accepts_unanchored:
  "\<not> spec_mxid_shape ''x@a:b'' \<and>
   init ''x@a:b'' b lg d st =
     Inr \<lparr>mxid = ''x@a:b'', localpart = ''a'', bot = b, log = lg, domain = d,
          registered = False, state_store = st, trace = []\<rparr> \<and>
   spec_mxid_shape ''@alice:example.org:8448'' \<and>
   init ''@alice:example.org:8448'' b lg d st =
     Inr \<lparr>mxid = ''@alice:example.org:8448'', localpart = ''alice:example.org'', bot = b,
          log = lg, domain = d, registered = False, state_store = st, trace = []\<rparr>"
  by (simp add: init_def spec_mxid_shape_def match_at_def match_with_def dot_def eval_nat_numeral)

section \<open>Migration of the permissions\<close>

declare segments.simps [simp del]

lemma segments_dot: "has_dot key \<Longrightarrow> segments key = key_head key # segments (key_rest key)"
  by (simp add: segments.simps)

lemma segments_nodot: "\<not> has_dot key \<Longrightarrow> segments key = [key]"
  by (simp add: segments.simps)

lemma segments_nonempty: "segments key \<noteq> []"
  by (cases "has_dot key") (simp_all add: segments_dot segments_nodot)

lemma get_recursive: "get data key d True = recursive_get data key d"
  by (simp add: get_def recursive_get_nodot)

lemma set_recursive: "set_key data key v True = recursive_set data key v"
  by (simp add: set_key_def recursive_set_nodot)

lemma delete_recursive: "delete data key True = recursive_del data key"
  by (simp add: delete_def recursive_del_nodot)

lemma recursive_set_is_map: "recursive_set data key v = Inr doc \<Longrightarrow> \<exists>m. data = VMap m"
  by (cases data) (auto simp: recursive_set.simps[of _ key] split: if_splits sum.splits)

lemma apart_head_dot:
  "has_dot q \<Longrightarrow> apart (k # ks) (segments q) = (k \<noteq> key_head q \<or> apart ks (segments (key_rest q)))"
  by (simp add: segments_dot)

lemma apart_head_nodot: "\<not> has_dot q \<Longrightarrow> apart (k # ks) (segments q) = (k \<noteq> q)"
  by (simp add: segments_nodot)

lemma set_frame:
  "recursive_set data key v = Inr doc \<Longrightarrow> apart (segments key) (segments q) \<Longrightarrow>
     recursive_get doc q d = recursive_get data q d"
proof (induction "length key" arbitrary: key data doc q rule: less_induct)
  case less
  from less.prems(1) obtain m where m: "data = VMap m"
    using recursive_set_is_map by blast
  show ?case
  proof (cases "has_dot key")
    case False
    then have doc: "doc = VMap (AList.update key v m)"
      using less.prems(1) m by (simp add: recursive_set_nodot)
    show ?thesis
    proof (cases "has_dot q")
      case True
      with less.prems(2) False have "key \<noteq> key_head q"
        by (simp add: segments_nodot segments_dot)
      then show ?thesis using True doc m
        by (simp add: recursive_get_dot map_of_update_other)
    next
      case nq: False
      with less.prems(2) False have "key \<noteq> q" by (simp add: segments_nodot)
      then show ?thesis using nq doc m
        by (simp add: recursive_get_nodot map_of_update_other)
    qed
  next
    case True
    let ?child = "case map_of m (key_head key) of Some c \<Rightarrow> c | None \<Rightarrow> VMap []"
    from less.prems(1) m True obtain c' where
      c': "recursive_set ?child (key_rest key) v = Inr c'"
      and doc: "doc = VMap (AList.update (key_head key) c' m)"
      by (auto simp: recursive_set_dot split: sum.splits)
    show ?thesis
    proof (cases "has_dot q")
      case nq: False
      with less.prems(2) True have "key_head key \<noteq> q"
        by (simp add: segments_nodot segments_dot)
      then show ?thesis using nq doc m
        by (simp add: recursive_get_nodot map_of_update_other)
    next
      case tq: True
      show ?thesis
      proof (cases "key_head q = key_head key")
        case False
        then show ?thesis using tq doc m
          by (simp add: recursive_get_dot map_of_update_other)
      next
        case same: True
        with less.prems(2) True tq have ap: "apart (segments (key_rest key)) (segments (key_rest q))"
          by (simp add: segments_dot)
        have "recursive_get c' (key_rest q) d = recursive_get ?child (key_rest q) d"
          using less.hyps[OF key_rest_shorter[OF True] c' ap] .
        then show ?thesis using tq doc m same
          by (simp add: recursive_get_dot map_of_update_same)
      qed
    qed
  qed
qed

lemma map_of_delete_other: "k' \<noteq> k \<Longrightarrow> map_of (AList.delete k m) k' = map_of m k'"
  by (simp add: delete_conv')

lemma recursive_del_nonmap:
  "(\<And>m. data \<noteq> VMap m) \<Longrightarrow> recursive_del data key = Inr doc \<Longrightarrow> doc = data"
  by (cases data) (auto simp: recursive_del.simps[of _ key] split: if_splits sum.splits)

lemma del_frame:
  "recursive_del data key = Inr doc \<Longrightarrow> apart (segments key) (segments q) \<Longrightarrow>
     recursive_get doc q d = recursive_get data q d"
proof (induction "length key" arbitrary: key data doc q rule: less_induct)
  case less
  show ?case
  proof (cases "\<exists>m. data = VMap m")
    case False
    then have "doc = data" using less.prems(1) recursive_del_nonmap by blast
    then show ?thesis by simp
  next
    case True
    then obtain m where m: "data = VMap m" by blast
    show ?thesis
    proof (cases "has_dot key")
      case False
      then have doc: "doc = VMap (AList.delete key m)"
        using less.prems(1) m by (simp add: recursive_del_nodot)
      show ?thesis
      proof (cases "has_dot q")
        case True
        with less.prems(2) False have "key \<noteq> key_head q"
          by (simp add: segments_nodot segments_dot)
        then show ?thesis using True doc m
          by (simp add: recursive_get_dot map_of_delete_other)
      next
        case nq: False
        with less.prems(2) False have "key \<noteq> q" by (simp add: segments_nodot)
        then show ?thesis using nq doc m
          by (simp add: recursive_get_nodot map_of_delete_other)
      qed
    next
      case dk: True
      show ?thesis
      proof (cases "map_of m (key_head key)")
        case None
        then have "doc = data" using less.prems(1) m dk by (simp add: recursive_del_dot)
        then show ?thesis by simp
      next
        case (Some c)
        with less.prems(1) m dk obtain c' where
          c': "recursive_del c (key_rest key) = Inr c'"
          and doc: "doc = VMap (AList.update (key_head key) c' m)"
          by (auto simp: recursive_del_dot split: sum.splits)
        show ?thesis
        proof (cases "has_dot q")
          case nq: False
          with less.prems(2) dk have "key_head key \<noteq> q"
            by (simp add: segments_nodot segments_dot)
          then show ?thesis using nq doc m
            by (simp add: recursive_get_nodot map_of_update_other)
        next
          case tq: True
          show ?thesis
          proof (cases "key_head q = key_head key")
            case False
            then show ?thesis using tq doc m
              by (simp add: recursive_get_dot map_of_update_other)
          next
            case same: True
            with less.prems(2) dk tq have ap: "apart (segments (key_rest key)) (segments (key_rest q))"
              by (simp add: segments_dot)
            have "recursive_get c' (key_rest q) d = recursive_get c (key_rest q) d"
              using less.hyps[OF key_rest_shorter[OF dk] c' ap] .
            then show ?thesis using tq doc m same Some
              by (simp add: recursive_get_dot map_of_update_same)
          qed
        qed
      qed
    qed
  qed
qed

lemma set_get_same:
  "recursive_set data key v = Inr doc \<Longrightarrow> recursive_get doc key d = Inr v"
proof (induction "length key" arbitrary: key data doc rule: less_induct)
  case less
  from less.prems(1) obtain m where m: "data = VMap m"
    using recursive_set_is_map by blast
  show ?case
  proof (cases "has_dot key")
    case False
    then show ?thesis using less.prems m
      by (auto simp: recursive_set_nodot recursive_get_nodot map_of_update_same)
  next
    case True
    let ?child = "case map_of m (key_head key) of Some c \<Rightarrow> c | None \<Rightarrow> VMap []"
    from less.prems(1) m True obtain c' where
      c': "recursive_set ?child (key_rest key) v = Inr c'"
      and doc: "doc = VMap (AList.update (key_head key) c' m)"
      by (auto simp: recursive_set_dot split: sum.splits)
    from less.hyps[OF key_rest_shorter[OF True] c'] show ?thesis
      using doc True by (simp add: recursive_get_dot map_of_update_same)
  qed
qed

lemma setitem_frame:
  "setitem base key v = Inr base' \<Longrightarrow> apart (segments key) (segments q) \<Longrightarrow>
     getitem base' q = getitem base q"
  by (simp add: setitem_def getitem_def set_recursive get_recursive set_frame)

lemma setitem_same: "setitem base key v = Inr base' \<Longrightarrow> getitem base' key = Inr v"
  by (simp add: setitem_def getitem_def set_recursive get_recursive set_get_same)

lemma delitem_frame:
  "delitem self key = Inr self' \<Longrightarrow> apart (segments key) (segments q) \<Longrightarrow>
     getitem self' q = getitem self q"
  by (simp add: delitem_def getitem_def delete_recursive get_recursive del_frame)

lemma and_then_Inr: "and_then m f = Inr y \<Longrightarrow> \<exists>x. m = Inr x \<and> f x = Inr y"
  by (cases m) (simp_all add: and_then_def)

lemma and_then_InrE:
  assumes "and_then m f = Inr y"
  obtains x where "m = Inr x" and "f x = Inr y"
  using assms by (cases m) (simp_all add: and_then_def)

lemma copy_frame:
  "copy self base from_path to_path = Inr base' \<Longrightarrow>
   apart (segments (or_path to_path from_path)) (segments q) \<Longrightarrow>
     getitem base' q = getitem base q"
  by (auto simp: copy_def dest!: and_then_Inr split: if_splits intro: setitem_frame)

lemma copies_frame:
  "copies self ks base = Inr base' \<Longrightarrow>
   \<forall>k \<in> set ks. apart (segments k) (segments q) \<Longrightarrow>
     getitem base' q = getitem base q"
proof (induction ks arbitrary: base)
  case Nil
  then show ?case by simp
next
  case (Cons k ks)
  from Cons.prems(1) obtain b1 where b1: "copy self base k None = Inr b1"
    and rest: "copies self ks b1 = Inr base'"
    by (auto split: sum.splits)
  have "getitem b1 q = getitem base q"
    using copy_frame[OF b1] Cons.prems(2) by (simp add: or_path_def)
  moreover have "getitem base' q = getitem b1 q"
    using Cons.IH[OF rest] Cons.prems(2) by simp
  ultimately show ?case by simp
qed


declare copies.simps [simp del]

lemma copies_Nil: "copies self [] base = Inr base"
  by (simp add: copies.simps)

lemma copies_Cons:
  "copies self (k # ks) base =
     (case copy self base k None of Inl e \<Rightarrow> Inl e | Inr base' \<Rightarrow> copies self ks base')"
  by (simp add: copies.simps)

lemmas segments_eval = segments.simps has_dot_def key_head_def key_rest_def

lemma update_rest_frame:
  assumes "update_rest self base = Inr base'"
  shows "getitem base' ''bridge.permissions'' = getitem base ''bridge.permissions''"
proof -
  have sp: "segments ''bridge.permissions'' = [''bridge'', ''permissions'']"
    by (simp add: segments_eval)
  have c1: "\<And>b b'. copy self b ''bridge.authless_relaybot_portals''
        (Some ''bridge.relaybot.authless_portals'') = Inr b' \<Longrightarrow>
      getitem b' ''bridge.permissions'' = getitem b ''bridge.permissions''"
    by (erule copy_frame) (simp add: or_path_def sp, simp add: segments_eval)
  have c2: "\<And>b b'. copies self
        [''bridge.relaybot.authless_portals'', ''bridge.relaybot.whitelist_group_admins'',
         ''bridge.relaybot.whitelist'', ''bridge.relaybot.ignore_own_incoming_events''] b = Inr b' \<Longrightarrow>
      getitem b' ''bridge.permissions'' = getitem b ''bridge.permissions''"
    by (erule copies_frame) (simp add: sp, simp add: segments_eval)
  have c3: "\<And>b b'. copies self
        [''telegram.api_id'', ''telegram.api_hash'', ''telegram.bot_token'',
         ''telegram.proxy.type'', ''telegram.proxy.address'', ''telegram.proxy.port'',
         ''telegram.proxy.rdns'', ''telegram.proxy.username'',
         ''telegram.proxy.password''] b = Inr b' \<Longrightarrow>
      getitem b' ''bridge.permissions'' = getitem b ''bridge.permissions''"
    by (erule copies_frame) (simp add: sp, simp add: segments_eval)
  have c4: "\<And>b b'. copy self b ''logging'' None = Inr b' \<Longrightarrow>
      getitem b' ''bridge.permissions'' = getitem b ''bridge.permissions''"
    by (erule copy_frame) (simp add: or_path_def sp, simp add: segments_eval)
  have c5: "\<And>b b' v. setitem b ''logging.root.level'' v = Inr b' \<Longrightarrow>
      getitem b' ''bridge.permissions'' = getitem b ''bridge.permissions''"
    by (erule setitem_frame) (simp add: sp, simp add: segments_eval)
  have c6: "\<And>b b' v. setitem b ''logging.loggers.mau.level'' v = Inr b' \<Longrightarrow>
      getitem b' ''bridge.permissions'' = getitem b ''bridge.permissions''"
    by (erule setitem_frame) (simp add: sp, simp add: segments_eval)
  have c7: "\<And>b b' v. setitem b ''logging.loggers.telethon.level'' v = Inr b' \<Longrightarrow>
      getitem b' ''bridge.permissions'' = getitem b ''bridge.permissions''"
    by (erule setitem_frame) (simp add: sp, simp add: segments_eval)
  from assms show ?thesis
    unfolding update_rest_def
    apply (auto dest!: and_then_Inr split: if_splits)
           apply ((drule c1 c2 c3 c4 c5 c6 c7)+, simp)+
    done
qed

lemma update_general_self:
  assumes "update_general render tok self base = Inr (self1, base1)"
    and "apart (segments ''bridge.message_formats'') (segments q)"
  shows "getitem self1 q = getitem self q"
  using assms unfolding update_general_def
  apply (elim and_then_InrE)
  apply (simp split: if_splits)
   apply (auto dest: delitem_frame)
  done

lemma assign_all_entries:
  "assign_all p es lv = Inr (Assigned p') \<Longrightarrow>
     (\<forall>e. VStr e \<in> set es \<longrightarrow> dict_get p' e d = Inr lv) \<and>
     (\<forall>k. VStr k \<notin> set es \<longrightarrow> dict_get p' k d = dict_get p k d)"
proof (induction es arbitrary: p)
  case Nil
  then show ?case by simp
next
  case (Cons x es)
  from Cons.prems obtain p1 where p1: "assign_entry p x lv = Inr (Assigned p1)"
    and rest: "assign_all p1 es lv = Inr (Assigned p')"
    by (auto split: sum.splits assigned.splits)
  from p1 obtain s m where x: "x = VStr s" and p: "p = VMap m"
    and p1m: "p1 = VMap (AList.update s lv m)"
    by (cases x; cases p) (auto split: sum.splits)
  note IH = Cons.IH[OF rest]
  have a: "dict_get p' e d = Inr lv" if "VStr e \<in> set (x # es)" for e
  proof (cases "VStr e \<in> set es")
    case True
    then show ?thesis using IH by blast
  next
    case False
    with that x have "e = s" by simp
    moreover from False IH have "dict_get p' e d = dict_get p1 e d" by blast
    ultimately show ?thesis using p1m by (simp add: map_of_update_same)
  qed
  have b: "dict_get p' k d = dict_get p k d" if "VStr k \<notin> set (x # es)" for k
  proof -
    from that x have "k \<noteq> s" "VStr k \<notin> set es" by auto
    then show ?thesis using IH p p1m by (simp add: map_of_update_other)
  qed
  show ?case using a b by blast
qed

lemma contains_Inr: "contains data key = Inr c \<Longrightarrow> \<exists>v. getitem data key = Inr v \<and> c = (v \<noteq> VNull)"
  by (auto simp: contains_def dest!: and_then_Inr)

lemma update_permissions_migrated:
  assumes "update_permissions self base = Inr (Some (self', base'))"
    and "contains self ''bridge.permissions'' = Inr False \<or>
         contains self ''bridge.whitelist'' = Inr True \<or>
         contains self ''bridge.admins'' = Inr True"
  shows "\<exists>old wl ad wes aes p1 perms.
           getitem self ''bridge.permissions'' = Inr old \<and>
           getitem self ''bridge.whitelist'' = Inr wl \<and>
           getitem self ''bridge.admins'' = Inr ad \<and>
           py_iter (py_or wl (VList [])) = Inr wes \<and>
           py_iter (py_or ad (VList [])) = Inr aes \<and>
           assign_all (py_or old (VMap [])) wes (VStr ''full'') = Inr (Assigned p1) \<and>
           assign_all p1 aes (VStr ''admin'') = Inr (Assigned perms) \<and>
           getitem base' ''bridge.permissions'' = Inr perms"
  using assms unfolding update_permissions_def
  apply (elim and_then_InrE)
  apply (simp split: if_splits)
    apply (auto elim!: and_then_InrE split: assigned.splits if_splits)
         apply (erule setitem_same)+
  done

lemmas update_eval =
  update_def update_general_def update_permissions_def update_rest_def copy_def copy_dict_def
  copies.simps or_path_def py_or_def save_def

lemma example_update:
  "update (\<lambda>v. []) ''token'' (Loaded example_base) example_config =
     Inr (Some (example_config\<lparr>cfg_data :=
                  VMap [(''bridge'', VMap [(''permissions'', VMap [(''@a:x'', VStr ''admin'')])])]\<rparr>,
                [(''config.yaml'',
                  VMap [(''bridge'', VMap [(''permissions'', VMap [(''@a:x'', VStr ''admin'')])])])]))"
  by (simp add: example_config_def example_source_def example_base_def update_eval path_eval)

lemma contains_frame:
  "getitem a q = getitem b q \<Longrightarrow> contains a q = contains b q"
  by (simp add: contains_def)

lemma update_Loaded:
  assumes "update render tok (Loaded b) cfg = Inr (Some (cfg', writes))"
  obtains self1 base1 self2 base2 base3 where
    "update_general render tok (cfg_data cfg) (py_or b (VMap [])) = Inr (self1, base1)"
    "update_permissions self1 base1 = Inr (Some (self2, base2))"
    "update_rest self2 base2 = Inr base3"
    "cfg' = cfg\<lparr>cfg_data := base3\<rparr>"
    "writes = save (cfg\<lparr>cfg_data := base3\<rparr>)"
  using assms unfolding update_def
  by (auto elim!: and_then_InrE split: option.splits prod.splits)

text \<open>
  Claim C4. When the migration runs to its end and the source has no permission map or
  has a whitelist or an admin list, the permission map of the output gives
  \<^verbatim>\<open>admin\<close> to every entry of the admin list and \<^verbatim>\<open>full\<close> to every entry of the
  whitelist that is not in the admin list; a source without a truthy permission map
  whose two lists are both \<^verbatim>\<open>["@a:x"]\<close> yields exactly the map of \<^verbatim>\<open>@a:x\<close> to
  \<^verbatim>\<open>admin\<close>.
\<close>

theorem migrated_permissions:
  assumes "update render tok (Loaded b) cfg = Inr (Some (cfg', writes))"
    and "contains (cfg_data cfg) ''bridge.permissions'' = Inr False \<or>
         contains (cfg_data cfg) ''bridge.whitelist'' = Inr True \<or>
         contains (cfg_data cfg) ''bridge.admins'' = Inr True"
    and "getitem (cfg_data cfg) ''bridge.permissions'' = Inr old"
    and "getitem (cfg_data cfg) ''bridge.whitelist'' = Inr wl"
    and "py_iter (py_or wl (VList [])) = Inr wes"
    and "getitem (cfg_data cfg) ''bridge.admins'' = Inr ad"
    and "py_iter (py_or ad (VList [])) = Inr aes"
  shows "\<exists>perms. getitem (cfg_data cfg') ''bridge.permissions'' = Inr perms \<and>
           (\<forall>e. VStr e \<in> set aes \<longrightarrow> dict_get perms e VNull = Inr (VStr ''admin'')) \<and>
           (\<forall>e. VStr e \<in> set wes \<and> VStr e \<notin> set aes \<longrightarrow>
                dict_get perms e VNull = Inr (VStr ''full'')) \<and>
           (\<not> truthy old \<and> wes = [VStr ''@a:x''] \<and> aes = [VStr ''@a:x''] \<longrightarrow>
              perms = VMap [(''@a:x'', VStr ''admin'')])"
proof -
  from assms(1) obtain self1 base1 self2 base2 base3 where
    g: "update_general render tok (cfg_data cfg) (py_or b (VMap [])) = Inr (self1, base1)"
    and p: "update_permissions self1 base1 = Inr (Some (self2, base2))"
    and r: "update_rest self2 base2 = Inr base3"
    and c: "cfg' = cfg\<lparr>cfg_data := base3\<rparr>"
    by (rule update_Loaded)
  have s1: "getitem self1 ''bridge.permissions'' = getitem (cfg_data cfg) ''bridge.permissions''"
    "getitem self1 ''bridge.whitelist'' = getitem (cfg_data cfg) ''bridge.whitelist''"
    "getitem self1 ''bridge.admins'' = getitem (cfg_data cfg) ''bridge.admins''"
    by (rule update_general_self[OF g], simp add: segments_eval)+
  have mig: "contains self1 ''bridge.permissions'' = Inr False \<or>
         contains self1 ''bridge.whitelist'' = Inr True \<or>
         contains self1 ''bridge.admins'' = Inr True"
    using assms(2) s1 by (simp add: contains_def)
  from update_permissions_migrated[OF p mig] obtain p1 perms where
    a1: "assign_all (py_or old (VMap [])) wes (VStr ''full'') = Inr (Assigned p1)"
    and a2: "assign_all p1 aes (VStr ''admin'') = Inr (Assigned perms)"
    and b2: "getitem base2 ''bridge.permissions'' = Inr perms"
    using s1 assms(3-7) by auto
  have out: "getitem (cfg_data cfg') ''bridge.permissions'' = Inr perms"
    using update_rest_frame[OF r] b2 c by simp
  note e1 = assign_all_entries[OF a1, of VNull]
  note e2 = assign_all_entries[OF a2, of VNull]
  have adm: "\<forall>e. VStr e \<in> set aes \<longrightarrow> dict_get perms e VNull = Inr (VStr ''admin'')"
    using e2 by blast
  have full: "\<forall>e. VStr e \<in> set wes \<and> VStr e \<notin> set aes \<longrightarrow>
      dict_get perms e VNull = Inr (VStr ''full'')"
    using e1 e2 by simp
  have ex: "perms = VMap [(''@a:x'', VStr ''admin'')]"
    if "\<not> truthy old \<and> wes = [VStr ''@a:x''] \<and> aes = [VStr ''@a:x'']"
    using that a1 a2 by (auto simp: py_or_def)
  show ?thesis using out adm full ex by blast
qed

theorem migrated_permissions_witness:
  "update (\<lambda>v. []) ''token'' (Loaded example_base) example_config =
     Inr (Some (example_config\<lparr>cfg_data :=
                  VMap [(''bridge'', VMap [(''permissions'', VMap [(''@a:x'', VStr ''admin'')])])]\<rparr>,
                [(''config.yaml'',
                  VMap [(''bridge'', VMap [(''permissions'', VMap [(''@a:x'', VStr ''admin'')])])])])) \<and>
   contains (cfg_data example_config) ''bridge.permissions'' = Inr False \<and>
   getitem (cfg_data example_config) ''bridge.permissions'' = Inr VNull \<and>
   getitem (cfg_data example_config) ''bridge.whitelist'' = Inr (VList [VStr ''@a:x'']) \<and>
   py_iter (py_or (VList [VStr ''@a:x'']) (VList [])) = Inr [VStr ''@a:x''] \<and>
   getitem (cfg_data example_config) ''bridge.admins'' = Inr (VList [VStr ''@a:x'']) \<and>
   getitem (cfg_data (example_config\<lparr>cfg_data :=
       VMap [(''bridge'', VMap [(''permissions'', VMap [(''@a:x'', VStr ''admin'')])])]\<rparr>))
     ''bridge.permissions'' = Inr (VMap [(''@a:x'', VStr ''admin'')])"
proof -
  have c: "contains (cfg_data example_config) ''bridge.permissions'' = Inr False"
    by (simp add: example_config_def example_source_def path_eval)
  have o: "getitem (cfg_data example_config) ''bridge.permissions'' = Inr VNull"
    by (simp add: example_config_def example_source_def path_eval)
  have w: "getitem (cfg_data example_config) ''bridge.whitelist'' = Inr (VList [VStr ''@a:x''])"
    by (simp add: example_config_def example_source_def path_eval)
  have a: "getitem (cfg_data example_config) ''bridge.admins'' = Inr (VList [VStr ''@a:x''])"
    by (simp add: example_config_def example_source_def path_eval)
  have i: "py_iter (py_or (VList [VStr ''@a:x'']) (VList [])) = Inr [VStr ''@a:x'']"
    by (simp add: py_or_def)
  from migrated_permissions[OF example_update disjI1[OF c] o w i a i]
  have "getitem (cfg_data (example_config\<lparr>cfg_data :=
       VMap [(''bridge'', VMap [(''permissions'', VMap [(''@a:x'', VStr ''admin'')])])]\<rparr>))
     ''bridge.permissions'' = Inr (VMap [(''@a:x'', VStr ''admin'')])"
    by auto
  then show ?thesis using example_update c o w a i by blast
qed

end
